theory Spec2Isabelle
  imports Complex_Main "HOL-Library.Word"
begin

section \<open>AgentEval.py: a single-episode rollout of a pretrained policy\<close>

text \<open>
  The script drives three external collaborators: the simulated environment
  (\<^verbatim>\<open>gym.make\<close>, \<^verbatim>\<open>env.reset\<close>, \<^verbatim>\<open>env.step\<close>), the pretrained policy
  (\<^verbatim>\<open>policy.reset\<close>, \<^verbatim>\<open>policy.select_action\<close>) and the video writers of imageio.
  The two pose conversions \<^verbatim>\<open>convert_7_to_6\<close> and \<^verbatim>\<open>convert_6_to_7\<close> come from the
  module \<^verbatim>\<open>utils\<close>, which is not among the sources. All of these are parameters of
  the model, collected in the record \<open>externals\<close>; what the script itself does
  (dictionary lookups, tensor reshaping, scaling, the loop, the writer life cycle)
  is modelled step by step.

  Tensor elements are real numbers: the rounding of float32 arithmetic is not
  modelled. Tensors are nested lists, outermost dimension first. Dictionaries are
  association lists in insertion order; a Python dictionary has no duplicate keys.
  Every effect on the outside world is recorded, in order, in a trace of events.
  The per-step diagnostic prints (f-strings of tensors) and the creation of the
  output directory are left out of the trace.
\<close>

subsection \<open>Data\<close>

type_synonym uid = string

text \<open>An image tensor \<^verbatim>\<open>[B, H, W, C]\<close> and a video frame \<^verbatim>\<open>[H, W, C]\<close> of uint8.\<close>

type_synonym image = "real list list list list"
type_synonym frame = "8 word list list list"

datatype py_error = KeyError string | IndexError | NameError string

record observation =
  extra :: "(string \<times> real list list) list"
  sensor_data :: "(uid \<times> (string \<times> image) list) list"

text \<open>The policy input dictionary built at lines 145-151.\<close>

record batch =
  observation_state :: "real list list"
  observation_image2 :: image
  observation_image :: image
  observation_image3 :: image
  task :: string

text \<open>
  The effects of the script: opening a writer for a camera (with its path and fps),
  appending a frame to the writer stored under a camera identifier, closing it,
  a call of \<^verbatim>\<open>env.step\<close> (with the action sent and the reward and flags returned),
  and the final report.
\<close>

datatype event =
    Opened uid string nat
  | Appended uid frame
  | Closed uid
  | Stepped "real list list" real bool bool
  | Printed string

record ('e, 'p) externals =
  convert_7_to_6 :: "real list list \<Rightarrow> real list"
  convert_6_to_7 :: "real list list \<Rightarrow> real list list"
  policy_reset :: "'p"
  select_action :: "'p \<Rightarrow> batch \<Rightarrow> real list list \<times> 'p"
  env_reset :: "nat \<Rightarrow> 'e \<times> observation"
  env_step :: "'e \<Rightarrow> real list list \<Rightarrow> 'e \<times> observation \<times> real \<times> bool \<times> bool"
  render_fps :: "nat option"

text \<open>
  The variables of the script. \<open>terminated\<close> is unbound until the first
  \<^verbatim>\<open>env.step\<close> has returned. A writer object is identified by the key under which
  the dictionary \<open>writers\<close> stores it; the stored value is its video path.
\<close>

record ('e, 'p) state =
  env :: 'e
  policy :: 'p
  raw_observation :: observation
  rewards :: "real list"
  frames :: "frame list"
  writers :: "(uid \<times> string) list"
  step :: nat
  done_flag :: bool
  terminated :: "bool option"
  trace :: "event list"

type_synonym ('e, 'p) outcome = "(py_error \<times> ('e, 'p) state) + ('e, 'p) state"

subsection \<open>Dictionaries\<close>

definition lookup_key :: "string \<Rightarrow> (string \<times> 'v) list \<Rightarrow> py_error + 'v" where
  "lookup_key k d = (case map_of d k of None \<Rightarrow> Inl (KeyError k) | Some v \<Rightarrow> Inr v)"

text \<open>\<^verbatim>\<open>d[k] = v\<close>: an existing key keeps its place, a new key goes last.\<close>

definition dict_set :: "(string \<times> 'v) list \<Rightarrow> string \<Rightarrow> 'v \<Rightarrow> (string \<times> 'v) list" where
  "dict_set d k v =
     (if k \<in> set (map fst d) then map (\<lambda>(k', v'). if k' = k then (k', v) else (k', v')) d
      else d @ [(k, v)])"

subsection \<open>Tensor operations\<close>

text \<open>
  \<^verbatim>\<open>.permute(0, 3, 1, 2)\<close> turns \<^verbatim>\<open>[B, H, W, C]\<close> into \<^verbatim>\<open>[B, C, H, W]\<close>; the casts
  \<^verbatim>\<open>.to(torch.float32)\<close> and \<^verbatim>\<open>.to(device)\<close> do not change the value of an element.
\<close>

definition permute_0312 :: "image \<Rightarrow> image" where
  "permute_0312 img = map (\<lambda>x. transpose (map transpose x)) img"

definition div_255 :: "image \<Rightarrow> image" where
  "div_255 img = map (map (map (map (\<lambda>v. v / 255)))) img"

definition preprocess_image :: "image \<Rightarrow> image" where
  "preprocess_image img = div_255 (permute_0312 img)"

text \<open>
  \<^verbatim>\<open>.astype(np.uint8)\<close>: the fractional part is dropped and the integer is reduced
  modulo 256; on the integers 0 to 255 it is the identity.
\<close>

definition astype_uint8 :: "real \<Rightarrow> 8 word" where
  "astype_uint8 v = word_of_int (if 0 \<le> v then \<lfloor>v\<rfloor> else \<lceil>v\<rceil>)"

text \<open>\<^verbatim>\<open>rgba[0, ..., :3].cpu().numpy().astype(np.uint8)\<close>\<close>

definition rgb_frame :: "image \<Rightarrow> py_error + frame" where
  "rgb_frame rgba =
     (case rgba of [] \<Rightarrow> Inl IndexError
      | x # _ \<Rightarrow> Inr (map (map (\<lambda>px. map astype_uint8 (take 3 px))) x))"

text \<open>
  \<^verbatim>\<open>action[:, :3] *= 0.05\<close> and \<^verbatim>\<open>action[:, 3:6] *= 0.2\<close>, on every row of the
  action tensor; columns from index 6 on are left as they are.
\<close>

definition scale_factor :: "nat \<Rightarrow> real" where
  "scale_factor i = (if i < 3 then 0.05 else if i < 6 then 0.2 else 1)"

definition scale_row :: "real list \<Rightarrow> real list" where
  "scale_row row = map (\<lambda>(i, v). v * scale_factor i) (enumerate 0 row)"

definition scale_action :: "real list list \<Rightarrow> real list list" where
  "scale_action action = map scale_row action"

subsection \<open>The script\<close>

text \<open>
  Line 96: \<^verbatim>\<open>str(output_dir / f"{uid}.mp4")\<close> with \<^verbatim>\<open>output_dir = Path("./videos")\<close>, as
  pathlib does it on a POSIX system. The segment replaces the directory when it
  starts with a slash; the joined text is split at the slashes, empty components
  and \<^verbatim>\<open>.\<close> components are dropped, and the root is \<^verbatim>\<open>//\<close> for exactly two leading
  slashes, \<^verbatim>\<open>/\<close> for one or for more than two.
\<close>

fun split_on :: "char \<Rightarrow> string \<Rightarrow> string list" where
  "split_on c [] = [[]]"
| "split_on c (x # xs) =
     (if x = c then [] # split_on c xs
      else (case split_on c xs of [] \<Rightarrow> [[x]] | w # ws \<Rightarrow> (x # w) # ws))"

fun join_with_slash :: "string list \<Rightarrow> string" where
  "join_with_slash [] = []"
| "join_with_slash [p] = p"
| "join_with_slash (p # q # ps) = p @ ''/'' @ join_with_slash (q # ps)"

definition posix_join :: "string \<Rightarrow> string \<Rightarrow> string" where
  "posix_join a b =
     (if take 1 b = ''/'' then b
      else if a = [] \<or> (a \<noteq> [] \<and> last a = CHR ''/'') then a @ b
      else a @ ''/'' @ b)"

definition posix_root :: "string \<Rightarrow> string" where
  "posix_root raw =
     (if take 2 raw = ''//'' \<and> take 3 raw \<noteq> ''///'' then ''//''
      else if take 1 raw = ''/'' then ''/'' else [])"

definition posix_parts :: "string \<Rightarrow> string list" where
  "posix_parts raw = filter (\<lambda>p. p \<noteq> [] \<and> p \<noteq> ''.'') (split_on CHR ''/'' raw)"

definition posix_str :: "string \<Rightarrow> string" where
  "posix_str raw =
     (if posix_root raw = [] \<and> posix_parts raw = [] then ''.''
      else posix_root raw @ join_with_slash (posix_parts raw))"

definition video_path :: "uid \<Rightarrow> string" where
  "video_path uid = posix_str (posix_join ''./videos'' (uid @ ''.mp4''))"

text \<open>Lines 95-98: one writer per camera identifier of the initial observation.\<close>

fun open_writers ::
  "nat \<Rightarrow> uid list \<Rightarrow> (uid \<times> string) list \<times> event list \<Rightarrow> (uid \<times> string) list \<times> event list" where
  "open_writers fps [] (ws, tr) = (ws, tr)"
| "open_writers fps (uid # rest) (ws, tr) =
     open_writers fps rest
       (dict_set ws uid (video_path uid), tr @ [Opened uid (video_path uid) fps])"

text \<open>\<^verbatim>\<open>env.metadata.get("render_fps", 30)\<close> and the cameras of the initial observation.\<close>

definition fps :: "('e, 'p) externals \<Rightarrow> nat" where
  "fps X = (case render_fps X of None \<Rightarrow> 30 | Some f \<Rightarrow> f)"

definition camera_uids :: "('e, 'p) externals \<Rightarrow> uid list" where
  "camera_uids X = map fst (sensor_data (snd (env_reset X 42)))"

definition init_state :: "('e, 'p) externals \<Rightarrow> ('e, 'p) state" where
  "init_state X =
     (let (e0, obs0) = env_reset X 42;
          (ws, tr) = open_writers (fps X) (camera_uids X) ([], [])
      in \<lparr>env = e0, policy = policy_reset X, raw_observation = obs0, rewards = [],
          frames = [], writers = ws, step = 0, done_flag = False, terminated = None,
          trace = tr\<rparr>)"

text \<open>Lines 105-151: the policy input for the current observation.\<close>

definition camera_rgb :: "observation \<Rightarrow> uid \<Rightarrow> py_error + image" where
  "camera_rgb obs cam =
     (case lookup_key cam (sensor_data obs) of Inl e \<Rightarrow> Inl e
      | Inr d \<Rightarrow> lookup_key ''rgb'' d)"

definition make_batch :: "('e, 'p) externals \<Rightarrow> observation \<Rightarrow> py_error + batch" where
  "make_batch X obs =
     (case lookup_key ''tcp_pose'' (extra obs) of Inl e \<Rightarrow> Inl e
      | Inr raw_pose \<Rightarrow>
     (case camera_rgb obs ''top_camera'' of Inl e \<Rightarrow> Inl e
      | Inr top_image \<Rightarrow>
     (case camera_rgb obs ''side_camera'' of Inl e \<Rightarrow> Inl e
      | Inr side_image \<Rightarrow>
     (case camera_rgb obs ''wrist_camera'' of Inl e \<Rightarrow> Inl e
      | Inr wrist_image \<Rightarrow>
        Inr \<lparr>observation_state = [convert_7_to_6 X raw_pose],
             observation_image2 = preprocess_image top_image,
             observation_image = preprocess_image wrist_image,
             observation_image3 = preprocess_image side_image,
             task = ''Pick up the red cube.''\<rparr>))))"

text \<open>Lines 173-176: the frame of every camera of the new observation.\<close>

fun append_frames ::
  "(uid \<times> string) list \<Rightarrow> (uid \<times> (string \<times> image) list) list \<Rightarrow> event list
     \<Rightarrow> (py_error \<times> event list) + event list" where
  "append_frames ws [] tr = Inr tr"
| "append_frames ws ((uid, data) # rest) tr =
     (case lookup_key ''rgb'' data of Inl e \<Rightarrow> Inl (e, tr)
      | Inr rgba \<Rightarrow>
     (case rgb_frame rgba of Inl e \<Rightarrow> Inl (e, tr)
      | Inr rgb \<Rightarrow>
     (case lookup_key uid ws of Inl e \<Rightarrow> Inl (e, tr)
      | Inr w \<Rightarrow> append_frames ws rest (tr @ [Appended uid rgb]))))"

text \<open>Lines 104-181: one iteration of the loop.\<close>

definition loop_body :: "('e, 'p) externals \<Rightarrow> ('e, 'p) state \<Rightarrow> ('e, 'p) outcome" where
  "loop_body X s =
     (case make_batch X (raw_observation s) of Inl e \<Rightarrow> Inl (e, s)
      | Inr b \<Rightarrow>
        (let (a6, p') = select_action X (policy s) b;
             action = convert_6_to_7 X (scale_action a6);
             (e', obs', reward, term, trunc) = env_step X (env s) action;
             s1 = s\<lparr>env := e', policy := p', raw_observation := obs',
                    rewards := rewards s @ [reward], terminated := Some term,
                    trace := trace s @ [Stepped action reward term trunc]\<rparr>
         in case append_frames (writers s1) (sensor_data obs') (trace s1) of
              Inl (e, tr) \<Rightarrow> Inl (e, s1\<lparr>trace := tr\<rparr>)
            | Inr tr \<Rightarrow>
                Inr (s1\<lparr>trace := tr, done_flag := (term \<or> trunc \<or> done_flag s1),
                        step := step s1 + 1\<rparr>)))"

text \<open>Lines 101-181: \<^verbatim>\<open>while not done\<close>. The loop need not end: no result is \<open>None\<close>.\<close>

partial_function (option) rollout ::
  "('e, 'p) externals \<Rightarrow> ('e, 'p) state \<Rightarrow> ('e, 'p) outcome option" where
  "rollout X s =
     (if done_flag s then Some (Inr s)
      else case loop_body X s of Inl err \<Rightarrow> Some (Inl err) | Inr s' \<Rightarrow> rollout X s')"

text \<open>Lines 183-191: the report and the closing of the writers.\<close>

definition teardown :: "('e, 'p) state \<Rightarrow> ('e, 'p) outcome" where
  "teardown s =
     (case terminated s of None \<Rightarrow> Inl (NameError ''terminated'', s)
      | Some t \<Rightarrow>
          Inr (s\<lparr>trace := trace s @ [Printed (if t then ''Success!'' else ''Failure!'')]
                    @ map Closed (map fst (writers s))\<rparr>))"

definition agent_eval :: "('e, 'p) externals \<Rightarrow> ('e, 'p) outcome option" where
  "agent_eval X =
     (case rollout X (init_state X) of None \<Rightarrow> None
      | Some (Inl err) \<Rightarrow> Some (Inl err)
      | Some (Inr s) \<Rightarrow> Some (teardown s))"

definition final_state :: "('e, 'p) outcome \<Rightarrow> ('e, 'p) state" where
  "final_state r = (case r of Inl (e, s) \<Rightarrow> s | Inr s \<Rightarrow> s)"

subsection \<open>Reading the trace\<close>

fun event_uid :: "event \<Rightarrow> uid option" where
  "event_uid (Opened u p f) = Some u"
| "event_uid (Appended u fr) = Some u"
| "event_uid (Closed u) = Some u"
| "event_uid (Stepped a r t tr) = None"
| "event_uid (Printed m) = None"

text \<open>What happened, in order, to the writer stored under a camera identifier.\<close>

definition writer_events :: "uid \<Rightarrow> event list \<Rightarrow> event list" where
  "writer_events uid tr = filter (\<lambda>ev. event_uid ev = Some uid) tr"

text \<open>
  The video files opened, the frames appended to the writer of a camera, the calls
  of \<^verbatim>\<open>env.step\<close> and the actions they were given, each in the order of the trace.
\<close>

fun is_step :: "event \<Rightarrow> bool" where
  "is_step (Stepped a r t tr) = True"
| "is_step ev = False"

fun appended_to :: "uid \<Rightarrow> event \<Rightarrow> bool" where
  "appended_to uid (Appended u fr) = (u = uid)"
| "appended_to uid ev = False"

definition opened_files :: "event list \<Rightarrow> (uid \<times> string) list" where
  "opened_files tr =
     concat (map (\<lambda>ev. case ev of Opened u p f \<Rightarrow> [(u, p)] | _ \<Rightarrow> []) tr)"

definition frames_written :: "uid \<Rightarrow> event list \<Rightarrow> event list" where
  "frames_written uid tr = filter (appended_to uid) tr"

definition env_steps :: "event list \<Rightarrow> event list" where
  "env_steps tr = filter is_step tr"

definition sent_actions :: "event list \<Rightarrow> real list list list" where
  "sent_actions tr =
     concat (map (\<lambda>ev. case ev of Stepped a r t tr \<Rightarrow> [a] | _ \<Rightarrow> []) tr)"

text \<open>The terminated flag returned by the last call of \<^verbatim>\<open>env.step\<close> in a trace.\<close>

fun last_terminated :: "event list \<Rightarrow> bool option" where
  "last_terminated [] = None"
| "last_terminated (ev # tr) =
     (case last_terminated tr of Some t \<Rightarrow> Some t
      | None \<Rightarrow> (case ev of Stepped a r t u \<Rightarrow> Some t | _ \<Rightarrow> None))"

text \<open>
  The events of the loop: calls of \<^verbatim>\<open>env.step\<close> and frames appended to the
  writers of the given cameras.
\<close>

fun loop_event :: "uid list \<Rightarrow> event \<Rightarrow> bool" where
  "loop_event cams (Stepped a r t u) = True"
| "loop_event cams (Appended uid fr) = (uid \<in> set cams)"
| "loop_event cams ev = False"

text \<open>
  The frame that line 175 takes from a camera's data: the first three channels of
  batch element 0 of its \<^verbatim>\<open>rgb\<close> tensor, as uint8.
\<close>

definition rgb_ok :: "(string \<times> image) list \<Rightarrow> bool" where
  "rgb_ok data = (case map_of data ''rgb'' of None \<Rightarrow> False | Some rgba \<Rightarrow> rgba \<noteq> [])"

text \<open>A camera entry that line 173-176 can handle: it has a non-empty \<^verbatim>\<open>rgb\<close>
  tensor and its identifier is a key of \<open>writers\<close>.\<close>

definition item_ok :: "(uid \<times> string) list \<Rightarrow> uid \<times> (string \<times> image) list \<Rightarrow> bool" where
  "item_ok ws item = (rgb_ok (snd item) \<and> fst item \<in> fst ` set ws)"

text \<open>The error that lines 174-176 raise on a camera entry they cannot handle.\<close>

definition item_error :: "uid \<times> (string \<times> image) list \<Rightarrow> py_error" where
  "item_error item =
     (case lookup_key ''rgb'' (snd item) of Inl e \<Rightarrow> e
      | Inr rgba \<Rightarrow> (case rgb_frame rgba of Inl e \<Rightarrow> e | Inr rgb \<Rightarrow> KeyError (fst item)))"

definition first_three_channels :: "(string \<times> image) list \<Rightarrow> frame" where
  "first_three_channels data =
     (case map_of data ''rgb'' of None \<Rightarrow> []
      | Some rgba \<Rightarrow> map (map (\<lambda>px. map astype_uint8 (take 3 px))) (hd rgba))"

definition frame_events :: "(uid \<times> (string \<times> image) list) list \<Rightarrow> event list" where
  "frame_events items = map (\<lambda>(uid, data). Appended uid (first_three_channels data)) items"

subsection \<open>Vectors and shapes\<close>

text \<open>
  Addition and scalar multiplication of action tensors, the property that every
  element of an image satisfies a predicate, and the shape of an image.
\<close>

definition tensor_add :: "real list list \<Rightarrow> real list list \<Rightarrow> real list list" where
  "tensor_add a b = map2 (map2 (+)) a b"

definition tensor_smult :: "real \<Rightarrow> real list list \<Rightarrow> real list list" where
  "tensor_smult c a = map (map ((*) c)) a"

definition all_elements :: "(real \<Rightarrow> bool) \<Rightarrow> image \<Rightarrow> bool" where
  "all_elements P img = list_all (list_all (list_all (list_all P))) img"

definition has_shape :: "image \<Rightarrow> nat \<Rightarrow> nat \<Rightarrow> nat \<Rightarrow> nat \<Rightarrow> bool" where
  "has_shape img n1 n2 n3 n4 =
     (length img = n1 \<and>
      list_all (\<lambda>x. length x = n2 \<and>
        list_all (\<lambda>y. length y = n3 \<and> list_all (\<lambda>z. length z = n4) y) x) img)"

subsection \<open>The episode-length cap\<close>

definition max_episode_steps :: nat where
  "max_episode_steps = 500"

text \<open>
  Modelled from the spec: the environment built by \<^verbatim>\<open>gym.make\<close> (the registered
  class of \<^verbatim>\<open>CamHandler\<close> and the wrappers of the simulation framework are not among
  the sources). The spec says that a maximum step cap is enforced by the
  environment itself, through its truncation flag: the environment counts its
  steps since the reset and returns \<open>truncated\<close> as true once the count reaches
  the cap.
\<close>

definition with_time_limit :: "nat \<Rightarrow> ('e, 'p) externals \<Rightarrow> (nat \<times> 'e, 'p) externals" where
  "with_time_limit cap X =
     \<lparr>convert_7_to_6 = convert_7_to_6 X,
      convert_6_to_7 = convert_6_to_7 X,
      policy_reset = policy_reset X,
      select_action = select_action X,
      env_reset = (\<lambda>seed. case env_reset X seed of (e, obs) \<Rightarrow> ((0, e), obs)),
      env_step = (\<lambda>(n, e) a. case env_step X e a of
                    (e', obs, reward, term, trunc) \<Rightarrow>
                      ((Suc n, e'), obs, reward, term, trunc \<or> cap \<le> Suc n)),
      render_fps = render_fps X\<rparr>"

subsection \<open>The loop as a whole\<close>

text \<open>The events of lines 95-98, in order.\<close>

definition open_events :: "('e, 'p) externals \<Rightarrow> event list" where
  "open_events X = map (\<lambda>u. Opened u (video_path u) (fps X)) (camera_uids X)"

text \<open>
  What holds when the loop has ended, for a property \<open>I\<close> of the script's
  variables: after a normal exit \<open>I\<close> holds and \<open>done\<close> is set; after an abort
  some iteration, started where \<open>I\<close> held, raised the error.
\<close>

definition loop_post ::
  "('e, 'p) externals \<Rightarrow> (('e, 'p) state \<Rightarrow> bool) \<Rightarrow> ('e, 'p) outcome \<Rightarrow> bool" where
  "loop_post X I r =
     (case r of Inr s' \<Rightarrow> I s' \<and> done_flag s'
      | Inl err \<Rightarrow> \<exists>s0. I s0 \<and> \<not> done_flag s0 \<and> loop_body X s0 = Inl err)"

text \<open>
  The part of the trace written by the loop, and what every iteration keeps true:
  the writers and the list \<open>frames\<close> are untouched, the trace is the opening of
  the writers followed by steps and frames for the initial cameras, \<open>terminated\<close>
  is the flag of the last step, \<open>step\<close> counts the calls of \<^verbatim>\<open>env.step\<close>, and
  \<open>done\<close> is only set once \<open>terminated\<close> is bound.
\<close>

definition loop_trace :: "('e, 'p) externals \<Rightarrow> ('e, 'p) state \<Rightarrow> event list" where
  "loop_trace X s = drop (length (open_events X)) (trace s)"

definition run_inv :: "('e, 'p) externals \<Rightarrow> ('e, 'p) state \<Rightarrow> bool" where
  "run_inv X s =
     (writers s = writers (init_state X) \<and> frames s = []
      \<and> trace s = open_events X @ loop_trace X s
      \<and> list_all (loop_event (camera_uids X)) (loop_trace X s)
      \<and> last_terminated (loop_trace X s) = terminated s
      \<and> length (env_steps (loop_trace X s)) = step s
      \<and> (done_flag s \<longrightarrow> terminated s \<noteq> None))"

subsection \<open>A small concrete episode\<close>

text \<open>
  Three cameras with one RGBA pixel each and a tool pose with the identity
  quaternion. The stand-in for \<^verbatim>\<open>convert_7_to_6\<close> keeps the three translation
  components and gives the three rotation components of the identity rotation;
  the policy always answers with the same action; the environment reports
  success at its second step.
\<close>

definition demo_image :: image where
  "demo_image = [[[[255, 0, 51, 255]]]]"

definition demo_obs :: observation where
  "demo_obs =
     \<lparr>extra = [(''tcp_pose'', [[2, 0, 0, 1, 0, 0, 0]])],
      sensor_data = [(''top_camera'', [(''rgb'', demo_image)]),
                     (''side_camera'', [(''rgb'', demo_image)]),
                     (''wrist_camera'', [(''rgb'', demo_image)])]\<rparr>"

definition demo_externals :: "(nat, unit) externals" where
  "demo_externals =
     \<lparr>convert_7_to_6 = (\<lambda>pose. case pose of [] \<Rightarrow> [] | row # _ \<Rightarrow> take 3 row @ [0, 0, 0]),
      convert_6_to_7 = map (\<lambda>row. row @ [0]),
      policy_reset = (),
      select_action = (\<lambda>p b. ([[1, 1, 1, 1, 1, 1]], p)),
      env_reset = (\<lambda>seed. (0, demo_obs)),
      env_step = (\<lambda>n a. (Suc n, demo_obs, 1, 1 \<le> n, False)),
      render_fps = None\<rparr>"

text \<open>The same episode, except that the first step succeeds and returns an
  observation without the side camera.\<close>

definition side_camera_lost :: "(nat, unit) externals" where
  "side_camera_lost =
     demo_externals\<lparr>env_step := (\<lambda>n a.
        (Suc n, demo_obs\<lparr>sensor_data := [(''top_camera'', [(''rgb'', demo_image)]),
                                          (''wrist_camera'', [(''rgb'', demo_image)])]\<rparr>,
         1, True, False))\<rparr>"

text \<open>The same episode, except that the first step returns an observation with a
  camera that the initial observation did not have.\<close>

definition extra_camera_seen :: "(nat, unit) externals" where
  "extra_camera_seen =
     demo_externals\<lparr>env_step := (\<lambda>n a.
        (Suc n, demo_obs\<lparr>sensor_data := sensor_data demo_obs
                                          @ [(''hand_camera'', [(''rgb'', demo_image)])]\<rparr>,
         1, True, False))\<rparr>"

text \<open>A frame event carries at most three channels per pixel.\<close>

fun at_most_rgb :: "event \<Rightarrow> bool" where
  "at_most_rgb (Appended u fr) = list_all (list_all (\<lambda>px. length px \<le> 3)) fr"
| "at_most_rgb ev = True"

text \<open>An observation that lists exactly the given cameras, each once.\<close>

definition same_cameras :: "uid list \<Rightarrow> observation \<Rightarrow> bool" where
  "same_cameras cams obs =
     (distinct (map fst (sensor_data obs)) \<and> set (map fst (sensor_data obs)) = set cams)"

text \<open>The end of the episode in which the side camera is lost.\<close>

definition side_camera_lost_end :: "(nat, unit) state" where
  "side_camera_lost_end =
     \<lparr>env = 1, policy = (),
      raw_observation =
        \<lparr>extra = [(''tcp_pose'', [[2, 0, 0, 1, 0, 0, 0]])],
         sensor_data = [(''top_camera'', [(''rgb'', [[[[255, 0, 51, 255]]]])]),
                        (''wrist_camera'', [(''rgb'', [[[[255, 0, 51, 255]]]])])]\<rparr>,
      rewards = [1], frames = [],
      writers = [(''top_camera'', ''videos/top_camera.mp4''),
                 (''side_camera'', ''videos/side_camera.mp4''),
                 (''wrist_camera'', ''videos/wrist_camera.mp4'')],
      step = 1, done_flag = True, terminated = Some True,
      trace = [Opened ''top_camera'' ''videos/top_camera.mp4'' 30,
               Opened ''side_camera'' ''videos/side_camera.mp4'' 30,
               Opened ''wrist_camera'' ''videos/wrist_camera.mp4'' 30,
               Stepped [[1 / 20, 1 / 20, 1 / 20, 1 / 5, 1 / 5, 1 / 5, 0]] 1 True False,
               Appended ''top_camera'' [[[255, 0, 51]]],
               Appended ''wrist_camera'' [[[255, 0, 51]]],
               Printed ''Success!'',
               Closed ''top_camera'', Closed ''side_camera'', Closed ''wrist_camera'']\<rparr>"

text \<open>The concrete episode with an environment that never reports success.\<close>

definition never_terminated :: "(nat, unit) externals" where
  "never_terminated = demo_externals\<lparr>env_step := (\<lambda>n a. (Suc n, demo_obs, 0, False, False))\<rparr>"

text \<open>
  The states of the script after each of the first \<open>n\<close> iterations of the loop
  started in \<open>s\<close>, as long as the loop goes on and the iterations complete. The
  observation of such a state is the one that \<^verbatim>\<open>env.step\<close> returned in that
  iteration.
\<close>

fun run_states :: "nat \<Rightarrow> ('e, 'p) externals \<Rightarrow> ('e, 'p) state \<Rightarrow> ('e, 'p) state list" where
  "run_states 0 X s = []"
| "run_states (Suc n) X s =
     (if done_flag s then []
      else case loop_body X s of Inl err \<Rightarrow> [] | Inr s' \<Rightarrow> s' # run_states n X s')"

text \<open>
  The trace cut into steps: one block per call of \<^verbatim>\<open>env.step\<close>, holding the step
  event and every event after it up to the next step.
\<close>

fun step_blocks :: "event list \<Rightarrow> event list list" where
  "step_blocks [] = []"
| "step_blocks (ev # tr) =
     (if is_step ev then (ev # takeWhile (\<lambda>e. \<not> is_step e) tr) # step_blocks tr
      else step_blocks tr)"

text \<open>
  The events of a sequence of completed iterations: per iteration its step event,
  then one frame per camera of the observation that the step returned.
\<close>

definition blocks_of :: "event list \<Rightarrow> ('e, 'p) state list \<Rightarrow> event list list" where
  "blocks_of evs sts =
     map2 (\<lambda>ev s'. ev # frame_events (sensor_data (raw_observation s'))) evs sts"

text \<open>
  An episode of two steps in which every returned observation has the three
  initial cameras, on an environment that would drop the side camera from a
  third step on.
\<close>

definition late_drop :: "(nat, unit) externals" where
  "late_drop =
     demo_externals\<lparr>env_step := (\<lambda>n a.
        (Suc n,
         if 2 \<le> n then demo_obs\<lparr>sensor_data := [(''top_camera'', [(''rgb'', demo_image)]),
                                                     (''wrist_camera'', [(''rgb'', demo_image)])]\<rparr>
         else demo_obs,
         1, 1 \<le> n, False))\<rparr>"

section \<open>Properties\<close>

subsection \<open>Dictionaries\<close>

lemma map_of_known: "map_of d k = Some v \<Longrightarrow> k \<in> fst ` set d"
  by (metis map_of_eq_None_iff option.distinct(1))

lemma lookup_key_Inr_iff: "lookup_key k d = Inr v \<longleftrightarrow> map_of d k = Some v"
  by (simp add: lookup_key_def split: option.splits)

lemma lookup_key_Inl_iff: "lookup_key k d = Inl e \<longleftrightarrow> e = KeyError k \<and> k \<notin> fst ` set d"
  by (cases "map_of d k") (auto simp: lookup_key_def map_of_eq_None_iff[symmetric])

lemma lookup_key_known: "lookup_key k d = Inr v \<Longrightarrow> k \<in> fst ` set d"
  by (cases "map_of d k") (simp_all add: lookup_key_def map_of_known)

lemma lookup_key_present: "k \<in> fst ` set d \<Longrightarrow> \<exists>v. lookup_key k d = Inr v"
  by (cases "map_of d k") (auto simp: lookup_key_def map_of_eq_None_iff)

subsection \<open>The frame loop\<close>

lemma rgb_frame_Inr_iff:
  "rgb_frame rgba = Inr f \<longleftrightarrow> rgba \<noteq> [] \<and> f = map (map (\<lambda>px. map astype_uint8 (take 3 px))) (hd rgba)"
  by (cases rgba) (auto simp: rgb_frame_def)

lemma frame_events_Nil: "frame_events [] = []"
  by (simp add: frame_events_def)

lemma frame_events_Cons:
  "frame_events ((uid, data) # items) = Appended uid (first_three_channels data) # frame_events items"
  by (simp add: frame_events_def)

lemma append_frames_step_ok:
  assumes "item_ok ws (uid, data)"
  shows "append_frames ws ((uid, data) # items) tr =
         append_frames ws items (tr @ [Appended uid (first_three_channels data)])"
proof -
  from assms obtain rgba where rgba: "map_of data ''rgb'' = Some rgba" "rgba \<noteq> []"
    by (auto simp: item_ok_def rgb_ok_def split: option.splits)
  from assms obtain w where w: "lookup_key uid ws = Inr w"
    using lookup_key_present[of uid ws] by (auto simp: item_ok_def)
  have fr: "rgb_frame rgba = Inr (first_three_channels data)"
    using rgba by (simp add: rgb_frame_Inr_iff first_three_channels_def)
  have lk: "lookup_key ''rgb'' data = Inr rgba"
    using rgba by (simp add: lookup_key_Inr_iff)
  show ?thesis by (simp add: lk fr w)
qed

lemma append_frames_step_bad:
  assumes "\<not> item_ok ws (uid, data)"
  shows "append_frames ws ((uid, data) # items) tr = Inl (item_error (uid, data), tr)"
proof (cases "lookup_key ''rgb'' data")
  case (Inl e1)
  then show ?thesis by (simp add: item_error_def)
next
  case lk: (Inr rgba)
  show ?thesis
  proof (cases "rgb_frame rgba")
    case (Inl e2)
    with lk show ?thesis by (simp add: item_error_def)
  next
    case fr: (Inr rgb)
    from lk fr have "rgb_ok data"
      by (simp add: lookup_key_Inr_iff rgb_frame_Inr_iff rgb_ok_def)
    with assms have "uid \<notin> fst ` set ws" by (simp add: item_ok_def)
    then have "lookup_key uid ws = Inl (KeyError uid)"
      by (simp add: lookup_key_Inl_iff)
    with lk fr show ?thesis by (simp add: item_error_def)
  qed
qed

lemma item_error_rgb_ok: "rgb_ok (snd item) \<Longrightarrow> item_error item = KeyError (fst item)"
  by (auto simp: item_error_def rgb_ok_def lookup_key_def rgb_frame_def
      split: option.splits list.splits)

lemma append_frames_ok:
  "list_all (item_ok ws) items \<Longrightarrow> append_frames ws items tr = Inr (tr @ frame_events items)"
proof (induction items arbitrary: tr)
  case Nil
  then show ?case by (simp add: frame_events_Nil)
next
  case (Cons item items)
  obtain uid data where item: "item = (uid, data)" by (cases item)
  from Cons.prems item have ok: "item_ok ws (uid, data)" and rest: "list_all (item_ok ws) items"
    by simp_all
  show ?case
    unfolding item append_frames_step_ok[OF ok] Cons.IH[OF rest] frame_events_Cons by simp
qed

lemma append_frames_Inr:
  "append_frames ws items tr = Inr tr'
   \<Longrightarrow> list_all (item_ok ws) items \<and> tr' = tr @ frame_events items"
proof (induction items arbitrary: tr)
  case Nil
  then show ?case by (simp add: frame_events_Nil)
next
  case (Cons item items)
  obtain uid data where item: "item = (uid, data)" by (cases item)
  have ok: "item_ok ws (uid, data)"
  proof (rule ccontr)
    assume "\<not> item_ok ws (uid, data)"
    from append_frames_step_bad[OF this, of items tr] Cons.prems item show False by simp
  qed
  from Cons.prems item
  have "append_frames ws items (tr @ [Appended uid (first_three_channels data)]) = Inr tr'"
    by (simp only: append_frames_step_ok[OF ok])
  from Cons.IH[OF this] ok item show ?case
    by (simp add: frame_events_Cons)
qed

lemma append_frames_Inl:
  "append_frames ws items tr = Inl (e, tr')
   \<Longrightarrow> \<exists>k. k < length items \<and> tr' = tr @ frame_events (take k items)
         \<and> list_all (item_ok ws) (take k items) \<and> \<not> item_ok ws (items ! k)
         \<and> e = item_error (items ! k)"
proof (induction items arbitrary: tr)
  case Nil
  then show ?case by simp
next
  case (Cons item items)
  obtain uid data where item: "item = (uid, data)" by (cases item)
  show ?case
  proof (cases "item_ok ws (uid, data)")
    case False
    from append_frames_step_bad[OF False, of items tr] Cons.prems item
    have "tr' = tr" "e = item_error item" by simp_all
    with False item show ?thesis
      by (intro exI[of _ 0]) (simp add: frame_events_Nil)
  next
    case True
    from Cons.prems item
    have "append_frames ws items (tr @ [Appended uid (first_three_channels data)]) = Inl (e, tr')"
      by (simp only: append_frames_step_ok[OF True])
    from Cons.IH[OF this] obtain k where k: "k < length items"
      and tr': "tr' = (tr @ [Appended uid (first_three_channels data)]) @ frame_events (take k items)"
      and ok: "list_all (item_ok ws) (take k items)"
      and bad: "\<not> item_ok ws (items ! k)"
      and err: "e = item_error (items ! k)"
      by (elim exE conjE)
    show ?thesis
    proof (intro exI[of _ "Suc k"] conjI)
      show "Suc k < length (item # items)" using k by simp
      show "tr' = tr @ frame_events (take (Suc k) (item # items))"
        using tr' item by (simp add: frame_events_Cons)
      show "list_all (item_ok ws) (take (Suc k) (item # items))"
        using ok True item by simp
      show "\<not> item_ok ws ((item # items) ! Suc k)" using bad by simp
      show "e = item_error ((item # items) ! Suc k)" using err by simp
    qed
  qed
qed

subsection \<open>Video paths\<close>

lemma split_on_plain: "c \<notin> set w \<Longrightarrow> split_on c w = [w]"
  by (induction w) auto

lemma split_on_append:
  "c \<notin> set w \<Longrightarrow> split_on c (w @ c # rest) = w # split_on c rest"
  by (induction w) auto

text \<open>For an identifier without a slash the path is \<^verbatim>\<open>videos/<uid>.mp4\<close>.\<close>

lemma video_path_plain:
  assumes "CHR ''/'' \<notin> set uid"
  shows "video_path uid = ''videos/'' @ uid @ ''.mp4''"
proof -
  have seg: "CHR ''/'' \<notin> set (uid @ ''.mp4'')" using assms by simp
  have j: "posix_join ''./videos'' (uid @ ''.mp4'') = ''./videos/'' @ uid @ ''.mp4''"
    using assms by (cases uid) (auto simp: posix_join_def)
  have "split_on CHR ''/'' (''.'' @ CHR ''/'' # (''videos'' @ CHR ''/'' # (uid @ ''.mp4'')))
          = [''.'', ''videos'', uid @ ''.mp4'']"
  proof -
    have 1: "CHR ''/'' \<notin> set ''.''" and 2: "CHR ''/'' \<notin> set ''videos''" by simp_all
    show ?thesis
      by (simp only: split_on_append[OF 1] split_on_append[OF 2] split_on_plain[OF seg])
  qed
  then have parts: "posix_parts (''./videos/'' @ uid @ ''.mp4'') = [''videos'', uid @ ''.mp4'']"
    by (cases uid) (simp_all add: posix_parts_def)
  have root: "posix_root (''./videos/'' @ uid @ ''.mp4'') = []"
    by (simp add: posix_root_def)
  show ?thesis
    unfolding video_path_def j posix_str_def parts root by simp
qed

lemma demo_paths:
  "video_path ''top_camera'' = ''videos/top_camera.mp4''"
  "video_path ''side_camera'' = ''videos/side_camera.mp4''"
  "video_path ''wrist_camera'' = ''videos/wrist_camera.mp4''"
  by (simp_all add: video_path_plain)

subsection \<open>Opening the writers\<close>

lemma dict_set_keys: "fst ` set (dict_set d k v) = insert k (fst ` set d)"
  by (force simp: dict_set_def split: if_splits)

lemma dict_set_new: "k \<notin> fst ` set d \<Longrightarrow> dict_set d k v = d @ [(k, v)]"
  by (simp add: dict_set_def)

lemma open_writers_trace:
  "snd (open_writers f uids (ws, tr)) = tr @ map (\<lambda>u. Opened u (video_path u) f) uids"
  by (induction uids arbitrary: ws tr) simp_all

lemma open_writers_keys:
  "fst ` set (fst (open_writers f uids (ws, tr))) = fst ` set ws \<union> set uids"
  by (induction uids arbitrary: ws tr) (simp_all add: dict_set_keys)

lemma open_writers_distinct:
  "distinct uids \<Longrightarrow> set uids \<inter> fst ` set ws = {}
   \<Longrightarrow> fst (open_writers f uids (ws, tr)) = ws @ map (\<lambda>u. (u, video_path u)) uids"
proof (induction uids arbitrary: ws tr)
  case Nil
  then show ?case by simp
next
  case (Cons u uids)
  from Cons.prems have new: "u \<notin> fst ` set ws" by auto
  from Cons.prems have "distinct uids" "set uids \<inter> fst ` set (ws @ [(u, video_path u)]) = {}"
    by auto
  from Cons.IH[OF this] new show ?case
    by (simp add: dict_set_new)
qed

lemma init_state_eq:
  "init_state X =
     \<lparr>env = fst (env_reset X 42), policy = policy_reset X,
      raw_observation = snd (env_reset X 42), rewards = [], frames = [],
      writers = fst (open_writers (fps X) (camera_uids X) ([], [])),
      step = 0, done_flag = False, terminated = None,
      trace = snd (open_writers (fps X) (camera_uids X) ([], []))\<rparr>"
  by (simp add: init_state_def split: prod.splits)

lemma init_state_trace: "trace (init_state X) = open_events X"
  by (simp add: init_state_eq open_writers_trace open_events_def)

lemma init_state_writers_keys: "fst ` set (writers (init_state X)) = set (camera_uids X)"
  by (simp add: init_state_eq open_writers_keys)

lemma init_state_writers:
  "distinct (camera_uids X)
   \<Longrightarrow> writers (init_state X) = map (\<lambda>u. (u, video_path u)) (camera_uids X)"
  by (simp add: init_state_eq open_writers_distinct)

lemma init_state_fields:
  "step (init_state X) = 0" "\<not> done_flag (init_state X)" "terminated (init_state X) = None"
  "frames (init_state X) = []" "rewards (init_state X) = []"
  "raw_observation (init_state X) = snd (env_reset X 42)"
  "env (init_state X) = fst (env_reset X 42)" "policy (init_state X) = policy_reset X"
  by (simp_all add: init_state_eq)

subsection \<open>One iteration\<close>

lemma loop_body_InrE:
  assumes "loop_body X s = Inr s'"
  obtains b a6 p' e' obs' reward "term" trunc where
    "make_batch X (raw_observation s) = Inr b"
    "select_action X (policy s) b = (a6, p')"
    "env_step X (env s) (convert_6_to_7 X (scale_action a6)) = (e', obs', reward, term, trunc)"
    "list_all (item_ok (writers s)) (sensor_data obs')"
    "s' = s\<lparr>env := e', policy := p', raw_observation := obs',
            rewards := rewards s @ [reward], terminated := Some term,
            trace := trace s @ Stepped (convert_6_to_7 X (scale_action a6)) reward term trunc
                       # frame_events (sensor_data obs'),
            done_flag := (term \<or> trunc \<or> done_flag s), step := Suc (step s)\<rparr>"
proof -
  obtain b where b: "make_batch X (raw_observation s) = Inr b"
    using assms by (cases "make_batch X (raw_observation s)") (simp_all add: loop_body_def)
  obtain a6 p' where sa: "select_action X (policy s) b = (a6, p')"
    by (cases "select_action X (policy s) b")
  obtain e' obs' reward "term" trunc where
    es: "env_step X (env s) (convert_6_to_7 X (scale_action a6)) = (e', obs', reward, term, trunc)"
    by (cases "env_step X (env s) (convert_6_to_7 X (scale_action a6))")
  let ?tr = "trace s @ [Stepped (convert_6_to_7 X (scale_action a6)) reward term trunc]"
  obtain tr where af: "append_frames (writers s) (sensor_data obs') ?tr = Inr tr"
    using assms b sa es
    by (cases "append_frames (writers s) (sensor_data obs') ?tr")
       (auto simp: loop_body_def)
  from append_frames_Inr[OF af]
  have ok: "list_all (item_ok (writers s)) (sensor_data obs')"
    and tr: "tr = ?tr @ frame_events (sensor_data obs')" by simp_all
  have "s' = s\<lparr>env := e', policy := p', raw_observation := obs',
            rewards := rewards s @ [reward], terminated := Some term,
            trace := trace s @ Stepped (convert_6_to_7 X (scale_action a6)) reward term trunc
                       # frame_events (sensor_data obs'),
            done_flag := (term \<or> trunc \<or> done_flag s), step := Suc (step s)\<rparr>"
    using assms b sa es af tr by (simp add: loop_body_def)
  with b sa es ok show ?thesis by (rule that)
qed

lemma loop_body_InlE:
  assumes "loop_body X s = Inl (err, s')"
  obtains (no_batch) "make_batch X (raw_observation s) = Inl err" "s' = s"
  | (no_frame) b a6 p' e' obs' reward "term" trunc k where
    "make_batch X (raw_observation s) = Inr b"
    "select_action X (policy s) b = (a6, p')"
    "env_step X (env s) (convert_6_to_7 X (scale_action a6)) = (e', obs', reward, term, trunc)"
    "k < length (sensor_data obs')"
    "list_all (item_ok (writers s)) (take k (sensor_data obs'))"
    "\<not> item_ok (writers s) (sensor_data obs' ! k)"
    "s' = s\<lparr>env := e', policy := p', raw_observation := obs',
            rewards := rewards s @ [reward], terminated := Some term,
            trace := trace s @ Stepped (convert_6_to_7 X (scale_action a6)) reward term trunc
                       # frame_events (take k (sensor_data obs'))\<rparr>"
    "err = item_error (sensor_data obs' ! k)"
proof (cases "make_batch X (raw_observation s)")
  case (Inl e)
  with assms have "e = err" "s' = s" by (simp_all add: loop_body_def)
  with Inl show ?thesis by (intro no_batch) simp_all
next
  case b: (Inr b)
  obtain a6 p' where sa: "select_action X (policy s) b = (a6, p')"
    by (cases "select_action X (policy s) b")
  obtain e' obs' reward "term" trunc where
    es: "env_step X (env s) (convert_6_to_7 X (scale_action a6)) = (e', obs', reward, term, trunc)"
    by (cases "env_step X (env s) (convert_6_to_7 X (scale_action a6))")
  let ?tr = "trace s @ [Stepped (convert_6_to_7 X (scale_action a6)) reward term trunc]"
  obtain tr where af: "append_frames (writers s) (sensor_data obs') ?tr = Inl (err, tr)"
    and s': "s' = s\<lparr>env := e', policy := p', raw_observation := obs',
            rewards := rewards s @ [reward], terminated := Some term, trace := tr\<rparr>"
    using assms b sa es
    by (cases "append_frames (writers s) (sensor_data obs') ?tr")
       (auto simp: loop_body_def)
  from append_frames_Inl[OF af] obtain k where k: "k < length (sensor_data obs')"
    and tr: "tr = ?tr @ frame_events (take k (sensor_data obs'))"
    and ok: "list_all (item_ok (writers s)) (take k (sensor_data obs'))"
    and bad: "\<not> item_ok (writers s) (sensor_data obs' ! k)"
    and err: "err = item_error (sensor_data obs' ! k)"
    by (elim exE conjE)
  from s' tr have "s' = s\<lparr>env := e', policy := p', raw_observation := obs',
            rewards := rewards s @ [reward], terminated := Some term,
            trace := trace s @ Stepped (convert_6_to_7 X (scale_action a6)) reward term trunc
                       # frame_events (take k (sensor_data obs'))\<rparr>"
    by simp
  from b sa es k ok bad this err show ?thesis by (rule no_frame)
qed

lemma loop_body_ok:
  assumes "make_batch X (raw_observation s) = Inr b"
    "select_action X (policy s) b = (a6, p')"
    "env_step X (env s) (convert_6_to_7 X (scale_action a6)) = (e', obs', reward, term, trunc)"
    "list_all (item_ok (writers s)) (sensor_data obs')"
  shows "loop_body X s = Inr (s\<lparr>env := e', policy := p', raw_observation := obs',
            rewards := rewards s @ [reward], terminated := Some term,
            trace := trace s @ Stepped (convert_6_to_7 X (scale_action a6)) reward term trunc
                       # frame_events (sensor_data obs'),
            done_flag := (term \<or> trunc \<or> done_flag s), step := Suc (step s)\<rparr>)"
  using assms append_frames_ok[OF assms(4)]
  by (simp add: loop_body_def)

subsection \<open>The loop\<close>

lemma rollout_done: "done_flag s \<Longrightarrow> rollout X s = Some (Inr s)"
  by (subst rollout.simps) simp

lemma rollout_abort:
  "\<not> done_flag s \<Longrightarrow> loop_body X s = Inl err \<Longrightarrow> rollout X s = Some (Inl err)"
  by (subst rollout.simps) simp

lemma rollout_continue:
  "\<not> done_flag s \<Longrightarrow> loop_body X s = Inr s' \<Longrightarrow> rollout X s = rollout X s'"
  by (subst rollout.simps) simp

lemma rollout_invariant:
  assumes run: "rollout X s = Some r"
    and init: "I s"
    and pres: "\<And>s s'. I s \<Longrightarrow> \<not> done_flag s \<Longrightarrow> loop_body X s = Inr s' \<Longrightarrow> I s'"
  shows "loop_post X I r"
proof -
  have "X' = X \<longrightarrow> I s \<longrightarrow> loop_post X I r" if "rollout X' s = Some r" for X'
    using that
  proof (induction rule: rollout.raw_induct[rotated 1, consumes 1])
    case (1 rollout' Y s r)
    show ?case
    proof (intro impI)
      assume Y: "Y = X" and Is: "I s"
      show "loop_post X I r"
      proof (cases "done_flag s")
        case True
        with 1(2) Is show ?thesis by (auto simp: loop_post_def)
      next
        case False
        show ?thesis
        proof (cases "loop_body X s")
          case (Inl err)
          with False 1(2) Y Is show ?thesis by (auto simp: loop_post_def)
        next
          case (Inr s')
          with False 1(2) Y have "rollout' X s' = Some r" by simp
          moreover from pres[OF Is False Inr] have "I s'" .
          ultimately show ?thesis using 1(1) by blast
        qed
      qed
    qed
  qed
  with run init show ?thesis by blast
qed

subsection \<open>Action scaling\<close>

lemma length_scale_row: "length (scale_row row) = length row"
  by (simp add: scale_row_def)

lemma scale_row_nth: "i < length row \<Longrightarrow> scale_row row ! i = row ! i * scale_factor i"
  by (simp add: scale_row_def nth_enumerate_eq)

lemma scale_row_add: "scale_row (map2 (+) xs ys) = map2 (+) (scale_row xs) (scale_row ys)"
  by (rule nth_equalityI) (simp_all add: length_scale_row scale_row_nth distrib_right)

lemma scale_row_smult: "scale_row (map ((*) c) xs) = map ((*) c) (scale_row xs)"
  by (rule nth_equalityI) (simp_all add: length_scale_row scale_row_nth)

lemma scale_row_zero: "scale_row (replicate n 0) = replicate n 0"
  by (rule nth_equalityI) (simp_all add: length_scale_row scale_row_nth)

lemma scale_row_6:
  "scale_row [a0, a1, a2, a3, a4, a5] =
     [a0 * 0.05, a1 * 0.05, a2 * 0.05, a3 * 0.2, a4 * 0.2, a5 * 0.2]"
  by (simp add: scale_row_def scale_factor_def enumerate_eq_zip upt_rec)

text \<open>
  C7, as amended. In exact arithmetic the scaling of lines 156-157 is linear: it
  distributes over the addition of two action tensors and over the multiplication
  by a scalar, and it maps a zero action to the zero action. It is not idempotent:
  a second application multiplies by the factors again.
\<close>

theorem scale_action_linear:
  "scale_action (tensor_add a b) = tensor_add (scale_action a) (scale_action b)
   \<and> scale_action (tensor_smult c a) = tensor_smult c (scale_action a)
   \<and> scale_action (replicate m (replicate n 0)) = replicate m (replicate n 0)"
proof (intro conjI)
  show "scale_action (tensor_add a b) = tensor_add (scale_action a) (scale_action b)"
    unfolding scale_action_def tensor_add_def
    by (rule nth_equalityI) (simp_all add: scale_row_add)
  show "scale_action (tensor_smult c a) = tensor_smult c (scale_action a)"
    by (simp add: scale_action_def tensor_smult_def scale_row_smult)
  show "scale_action (replicate m (replicate n 0)) = replicate m (replicate n 0)"
    by (simp add: scale_action_def scale_row_zero)
qed

text \<open>
  C7, as stated, fails: scaling the all-ones action twice gives 0.0025 and 0.04,
  scaling it once gives 0.05 and 0.2.
\<close>

theorem scale_action_not_idempotent:
  "scale_action (scale_action [[1, 1, 1, 1, 1, 1]]) \<noteq> scale_action [[1, 1, 1, 1, 1, 1]]"
  by (simp add: scale_action_def scale_row_6)

subsection \<open>Traces\<close>

lemma env_steps_append: "env_steps (xs @ ys) = env_steps xs @ env_steps ys"
  by (simp add: env_steps_def)

lemma env_steps_frame_events: "env_steps (frame_events items) = []"
  by (induction items) (auto simp: env_steps_def frame_events_def)

lemma env_steps_step:
  "env_steps (Stepped a r t u # frame_events items) = [Stepped a r t u]"
  using env_steps_frame_events[of items] by (simp add: env_steps_def)

lemma last_terminated_append:
  "last_terminated (xs @ ys) =
     (case last_terminated ys of Some t \<Rightarrow> Some t | None \<Rightarrow> last_terminated xs)"
  by (induction xs) (auto split: option.splits)

lemma last_terminated_frame_events: "last_terminated (frame_events items) = None"
  by (induction items) (auto simp: frame_events_def)

lemma last_terminated_step:
  "last_terminated (xs @ Stepped a r t u # frame_events items) = Some t"
  by (simp add: last_terminated_append last_terminated_frame_events)

lemma loop_event_frame_events:
  "list_all (item_ok ws) items \<Longrightarrow> fst ` set ws = set cams
   \<Longrightarrow> list_all (loop_event cams) (frame_events items)"
  by (induction items) (auto simp: frame_events_def item_ok_def)

subsection \<open>What the loop keeps true\<close>

lemma run_inv_init: "run_inv X (init_state X)"
  by (simp add: run_inv_def loop_trace_def init_state_trace init_state_fields env_steps_def)

lemma loop_trace_extend:
  assumes "trace s = open_events X @ loop_trace X s" "trace s' = trace s @ evs"
  shows "loop_trace X s' = loop_trace X s @ evs"
proof -
  have "trace s' = open_events X @ (loop_trace X s @ evs)"
    using assms by simp
  then show ?thesis
    unfolding loop_trace_def[of X s'] by simp
qed

lemma run_inv_step:
  assumes inv: "run_inv X s" and body: "loop_body X s = Inr s'"
  shows "run_inv X s'"
proof -
  from body obtain b a6 p' e' obs' reward t trunc where
    ok: "list_all (item_ok (writers s)) (sensor_data obs')"
    and s': "s' = s\<lparr>env := e', policy := p', raw_observation := obs',
            rewards := rewards s @ [reward], terminated := Some t,
            trace := trace s @ Stepped (convert_6_to_7 X (scale_action a6)) reward t trunc
                       # frame_events (sensor_data obs'),
            done_flag := (t \<or> trunc \<or> done_flag s), step := Suc (step s)\<rparr>"
    by (rule loop_body_InrE)
  let ?evs = "Stepped (convert_6_to_7 X (scale_action a6)) reward t trunc
                # frame_events (sensor_data obs')"
  from inv have tr: "trace s = open_events X @ loop_trace X s"
    and ws: "writers s = writers (init_state X)"
    and fr: "frames s = []"
    and ev: "list_all (loop_event (camera_uids X)) (loop_trace X s)"
    and st: "length (env_steps (loop_trace X s)) = step s"
    by (simp_all add: run_inv_def)
  from s' have "trace s' = trace s @ ?evs" by simp
  from loop_trace_extend[OF tr this] have lt: "loop_trace X s' = loop_trace X s @ ?evs" .
  have keys: "fst ` set (writers s) = set (camera_uids X)"
    using ws by (simp add: init_state_writers_keys)
  have fe: "list_all (loop_event (camera_uids X)) (frame_events (sensor_data obs'))"
    using ok keys by (rule loop_event_frame_events)
  have 1: "writers s' = writers (init_state X)" using s' ws by simp
  have 2: "frames s' = []" using s' fr by simp
  have 3: "trace s' = open_events X @ loop_trace X s'"
    using s' tr lt by simp
  have 4: "list_all (loop_event (camera_uids X)) (loop_trace X s')"
    using ev fe lt by simp
  have 5: "last_terminated (loop_trace X s') = terminated s'"
    using s' lt by (simp add: last_terminated_step)
  have 6: "length (env_steps (loop_trace X s')) = step s'"
  proof -
    have "length (env_steps (loop_trace X s')) = Suc (length (env_steps (loop_trace X s)))"
      by (simp add: lt env_steps_append env_steps_step)
    moreover have "step s' = Suc (step s)" using s' by simp
    ultimately show ?thesis using st by simp
  qed
  have 7: "done_flag s' \<longrightarrow> terminated s' \<noteq> None" using s' by simp
  from 1 2 3 4 5 6 7 show ?thesis unfolding run_inv_def by blast
qed

lemma rollout_run_inv:
  assumes "rollout X (init_state X) = Some r"
  shows "loop_post X (run_inv X) r"
  using assms run_inv_init
proof (rule rollout_invariant)
  fix s s' assume "run_inv X s" "loop_body X s = Inr s'"
  then show "run_inv X s'" by (rule run_inv_step)
qed

lemma rollout_normal:
  assumes "rollout X (init_state X) = Some (Inr s)"
  shows "run_inv X s" "done_flag s" "\<exists>t. terminated s = Some t"
  using rollout_run_inv[OF assms] by (auto simp: loop_post_def run_inv_def)

lemma rollout_aborted:
  assumes "rollout X (init_state X) = Some (Inl (err, s))"
  shows "writers s = writers (init_state X)" "frames s = []"
    "trace s = open_events X @ loop_trace X s"
    "list_all (loop_event (camera_uids X)) (loop_trace X s)"
    "length (env_steps (loop_trace X s)) \<le> Suc (step s)"
    "\<not> done_flag s"
proof -
  from rollout_run_inv[OF assms] obtain s0 where inv: "run_inv X s0"
    and nd: "\<not> done_flag s0" and body: "loop_body X s0 = Inl (err, s)"
    by (auto simp: loop_post_def)
  from inv have tr: "trace s0 = open_events X @ loop_trace X s0"
    and ws: "writers s0 = writers (init_state X)"
    and fr: "frames s0 = []"
    and ev: "list_all (loop_event (camera_uids X)) (loop_trace X s0)"
    and st: "length (env_steps (loop_trace X s0)) = step s0"
    by (simp_all add: run_inv_def)
  have "writers s = writers (init_state X) \<and> frames s = []
    \<and> trace s = open_events X @ loop_trace X s
    \<and> list_all (loop_event (camera_uids X)) (loop_trace X s)
    \<and> length (env_steps (loop_trace X s)) \<le> Suc (step s) \<and> \<not> done_flag s"
    using body
  proof (cases rule: loop_body_InlE)
    case no_batch
    with tr ws fr ev st nd show ?thesis by simp
  next
    case (no_frame b a6 p' e' obs' reward t trunc k)
    let ?evs = "Stepped (convert_6_to_7 X (scale_action a6)) reward t trunc
                # frame_events (take k (sensor_data obs'))"
    from no_frame(7) have "trace s = trace s0 @ ?evs" by simp
    from loop_trace_extend[OF tr this] have lt: "loop_trace X s = loop_trace X s0 @ ?evs" .
    have keys: "fst ` set (writers s0) = set (camera_uids X)"
      using ws by (simp add: init_state_writers_keys)
    have fe: "list_all (loop_event (camera_uids X)) (frame_events (take k (sensor_data obs')))"
      using no_frame(5) keys by (rule loop_event_frame_events)
    have 1: "writers s = writers (init_state X)" using no_frame(7) ws by simp
    have 2: "frames s = []" using no_frame(7) fr by simp
    have 3: "trace s = open_events X @ loop_trace X s"
      using no_frame(7) tr lt by simp
    have 4: "list_all (loop_event (camera_uids X)) (loop_trace X s)"
      using ev fe lt by simp
    have 6: "length (env_steps (loop_trace X s)) \<le> Suc (step s)"
    proof -
      have "length (env_steps (loop_trace X s)) = Suc (length (env_steps (loop_trace X s0)))"
        by (simp add: lt env_steps_append env_steps_step)
      moreover have "step s = step s0" using no_frame(7) by simp
      ultimately show ?thesis using st by simp
    qed
    have 7: "\<not> done_flag s" using no_frame(7) nd by simp
    from 1 2 3 4 6 7 show ?thesis by blast
  qed
  then show "writers s = writers (init_state X)" "frames s = []"
    "trace s = open_events X @ loop_trace X s"
    "list_all (loop_event (camera_uids X)) (loop_trace X s)"
    "length (env_steps (loop_trace X s)) \<le> Suc (step s)"
    "\<not> done_flag s" by simp_all
qed

subsection \<open>The whole script\<close>

lemma agent_eval_InrE:
  assumes "agent_eval X = Some (Inr s)"
  obtains s0 t where "rollout X (init_state X) = Some (Inr s0)" "terminated s0 = Some t"
    "s = s0\<lparr>trace := trace s0 @ Printed (if t then ''Success!'' else ''Failure!'')
                          # map Closed (map fst (writers s0))\<rparr>"
proof -
  from assms obtain s0 where run: "rollout X (init_state X) = Some (Inr s0)"
    and td: "teardown s0 = Inr s"
    by (auto simp: agent_eval_def split: option.splits sum.splits)
  from td obtain t where t: "terminated s0 = Some t"
    by (cases "terminated s0") (simp_all add: teardown_def)
  with td have "s = s0\<lparr>trace := trace s0 @ Printed (if t then ''Success!'' else ''Failure!'')
                          # map Closed (map fst (writers s0))\<rparr>"
    by (auto simp: teardown_def)
  with run t show ?thesis by (rule that)
qed

lemma agent_eval_InlD:
  assumes "agent_eval X = Some (Inl (err, s))"
  shows "rollout X (init_state X) = Some (Inl (err, s))"
proof (cases "rollout X (init_state X)")
  case None
  with assms show ?thesis by (simp add: agent_eval_def)
next
  case (Some r)
  show ?thesis
  proof (cases r)
    case (Inl a)
    with Some assms show ?thesis by (simp add: agent_eval_def)
  next
    case (Inr s0)
    with Some rollout_normal(3)[of X s0] obtain t where "terminated s0 = Some t" by auto
    with Some Inr assms show ?thesis by (simp add: agent_eval_def teardown_def)
  qed
qed

lemma agent_eval_normal:
  assumes "rollout X (init_state X) = Some (Inr s0)"
  shows "\<exists>t. terminated s0 = Some t \<and>
     agent_eval X = Some (Inr (s0\<lparr>trace := trace s0 @ Printed (if t then ''Success!'' else ''Failure!'')
                          # map Closed (map fst (writers s0))\<rparr>))"
proof -
  from rollout_normal(3)[OF assms] obtain t where "terminated s0 = Some t" ..
  with assms show ?thesis by (simp add: agent_eval_def teardown_def)
qed

subsection \<open>The concrete episode, evaluated\<close>

lemmas demo_defs = demo_externals_def demo_obs_def demo_image_def
  loop_body_def make_batch_def camera_rgb_def lookup_key_def dict_set_def demo_paths
  preprocess_image_def div_255_def permute_0312_def rgb_frame_def astype_uint8_def
  scale_action_def scale_row_def scale_factor_def teardown_def fps_def camera_uids_def
  init_state_eq enumerate_eq_zip upt_rec

lemma demo_init: "init_state demo_externals =
  \<lparr>env = 0, policy = (), raw_observation = demo_obs, rewards = [], frames = [],
   writers = [(''top_camera'', ''videos/top_camera.mp4''),
              (''side_camera'', ''videos/side_camera.mp4''),
              (''wrist_camera'', ''videos/wrist_camera.mp4'')],
   step = 0, done_flag = False, terminated = None,
   trace = [Opened ''top_camera'' ''videos/top_camera.mp4'' 30,
            Opened ''side_camera'' ''videos/side_camera.mp4'' 30,
            Opened ''wrist_camera'' ''videos/wrist_camera.mp4'' 30]\<rparr>"
  by (simp add: init_state_eq demo_externals_def demo_obs_def fps_def camera_uids_def
      dict_set_def demo_paths)

lemma demo_batch:
  "make_batch demo_externals demo_obs =
     Inr \<lparr>observation_state = [[2, 0, 0, 0, 0, 0]],
          observation_image2 = [[[[1]], [[0]], [[1 / 5]], [[1]]]],
          observation_image = [[[[1]], [[0]], [[1 / 5]], [[1]]]],
          observation_image3 = [[[[1]], [[0]], [[1 / 5]], [[1]]]],
          task = ''Pick up the red cube.''\<rparr>"
  by (simp add: demo_defs)

lemma demo_run: "\<exists>s. agent_eval demo_externals = Some (Inr s)"
  apply (simp add: agent_eval_def demo_init)
  apply (subst rollout.simps)
  apply (simp add: demo_defs)
  apply (subst rollout.simps)
  apply (simp add: demo_defs)
  apply (subst rollout.simps)
  apply (simp add: demo_defs)
  done

subsection \<open>The action sent to the environment\<close>

lemma sent_actions_append: "sent_actions (xs @ ys) = sent_actions xs @ sent_actions ys"
  by (simp add: sent_actions_def)

lemma sent_actions_frame_events: "sent_actions (frame_events items) = []"
  by (induction items) (auto simp: sent_actions_def frame_events_def)

lemma sent_actions_step:
  "sent_actions (xs @ Stepped a r t u # frame_events items) = sent_actions xs @ [a]"
  using sent_actions_frame_events[of items] by (simp add: sent_actions_def)

subsection \<open>Frames\<close>

lemma first_three_channels_rgb:
  "map_of data ''rgb'' = Some (x # others)
   \<Longrightarrow> first_three_channels data = map (map (\<lambda>px. map astype_uint8 (take 3 px))) x"
  by (simp add: first_three_channels_def)

lemma first_three_channels_le3:
  "list_all (list_all (\<lambda>px. length px \<le> 3)) (first_three_channels data)"
  by (auto simp: first_three_channels_def list_all_iff split: option.splits)

lemma at_most_rgb_frame_events: "list_all at_most_rgb (frame_events items)"
  by (induction items) (auto simp: frame_events_def first_three_channels_le3)

lemma at_most_rgb_open_events: "list_all at_most_rgb (open_events X)"
  by (simp add: open_events_def list_all_iff)

lemma at_most_rgb_loop_body:
  assumes "list_all at_most_rgb (trace s)"
  shows "list_all at_most_rgb (trace (final_state (loop_body X s)))"
proof (cases "loop_body X s")
  case (Inr s')
  then show ?thesis
  proof (rule loop_body_InrE)
    fix b a6 p' e' obs' reward t trunc
    assume "s' = s\<lparr>env := e', policy := p', raw_observation := obs',
            rewards := rewards s @ [reward], terminated := Some t,
            trace := trace s @ Stepped (convert_6_to_7 X (scale_action a6)) reward t trunc
                       # frame_events (sensor_data obs'),
            done_flag := (t \<or> trunc \<or> done_flag s), step := Suc (step s)\<rparr>"
    with Inr assms show ?thesis
      by (simp add: final_state_def at_most_rgb_frame_events)
  qed
next
  case (Inl a)
  obtain err s' where a: "a = (err, s')" by (cases a)
  from Inl a have "loop_body X s = Inl (err, s')" by simp
  then show ?thesis
  proof (cases rule: loop_body_InlE)
    case no_batch
    with Inl a assms show ?thesis by (simp add: final_state_def)
  next
    case (no_frame b a6 p' e' obs' reward t trunc k)
    with Inl a assms show ?thesis
      by (simp add: final_state_def at_most_rgb_frame_events)
  qed
qed

lemma at_most_rgb_rollout:
  assumes "rollout X (init_state X) = Some r"
  shows "list_all at_most_rgb (trace (final_state r))"
proof -
  have "loop_post X (\<lambda>s. list_all at_most_rgb (trace s)) r"
    using assms
  proof (rule rollout_invariant)
    show "list_all at_most_rgb (trace (init_state X))"
      by (simp add: init_state_trace at_most_rgb_open_events)
  next
    fix s s' assume "list_all at_most_rgb (trace s)" "loop_body X s = Inr s'"
    with at_most_rgb_loop_body[of s X] show "list_all at_most_rgb (trace s')"
      by (simp add: final_state_def)
  qed
  then show ?thesis
  proof (cases r)
    case (Inr s)
    with \<open>loop_post X (\<lambda>s. list_all at_most_rgb (trace s)) r\<close> show ?thesis
      by (simp add: loop_post_def final_state_def)
  next
    case (Inl a)
    with \<open>loop_post X (\<lambda>s. list_all at_most_rgb (trace s)) r\<close>
    obtain s0 where "list_all at_most_rgb (trace s0)" "loop_body X s0 = Inl a"
      by (auto simp: loop_post_def)
    with at_most_rgb_loop_body[of s0 X] Inl show ?thesis by simp
  qed
qed

lemma agent_eval_cases:
  assumes "agent_eval X = Some r"
  obtains (aborted) err s where "r = Inl (err, s)" "rollout X (init_state X) = Some (Inl (err, s))"
  | (normal) s s0 t where "r = Inr s" "rollout X (init_state X) = Some (Inr s0)"
      "terminated s0 = Some t"
      "s = s0\<lparr>trace := trace s0 @ Printed (if t then ''Success!'' else ''Failure!'')
                          # map Closed (map fst (writers s0))\<rparr>"
proof (cases r)
  case (Inl a)
  obtain err s where a: "a = (err, s)" by (cases a)
  with Inl assms have "rollout X (init_state X) = Some (Inl (err, s))"
    by (simp add: agent_eval_InlD)
  with Inl a show ?thesis by (intro aborted) simp_all
next
  case (Inr s)
  with assms have "agent_eval X = Some (Inr s)" by simp
  then obtain s0 t where "rollout X (init_state X) = Some (Inr s0)" "terminated s0 = Some t"
    "s = s0\<lparr>trace := trace s0 @ Printed (if t then ''Success!'' else ''Failure!'')
                          # map Closed (map fst (writers s0))\<rparr>"
    by (rule agent_eval_InrE)
  with Inr show ?thesis by (intro normal) simp_all
qed

text \<open>
  C10. An iteration that completes leaves the list \<open>frames\<close> as it was and appends
  to the trace, after the step, one frame per camera of the new observation, in
  the order of its \<^verbatim>\<open>sensor_data\<close>: the first three channels of batch element 0
  of the camera's \<^verbatim>\<open>rgb\<close> tensor, cast to uint8. No frame of a finished run,
  normal or aborted, has a fourth channel, and the list \<open>frames\<close> is empty at
  the end.
\<close>

theorem frames_are_rgb_of_new_observation:
  "(loop_body X s = Inr s' \<longrightarrow>
      frames s' = frames s
      \<and> list_all (\<lambda>item. rgb_ok (snd item)) (sensor_data (raw_observation s'))
      \<and> (\<exists>a r t u. trace s' = trace s @ Stepped a r t u
            # map (\<lambda>(uid, data). Appended uid (first_three_channels data))
                (sensor_data (raw_observation s'))))
   \<and> (map_of data ''rgb'' = Some (x # others) \<longrightarrow>
        first_three_channels data = map (map (\<lambda>px. map astype_uint8 (take 3 px))) x)
   \<and> (agent_eval X = Some r \<longrightarrow>
        frames (final_state r) = [] \<and> list_all at_most_rgb (trace (final_state r)))"
proof (intro conjI impI)
  assume body: "loop_body X s = Inr s'"
  then obtain b a6 p' e' obs' reward t trunc where
    ok: "list_all (item_ok (writers s)) (sensor_data obs')"
    and s': "s' = s\<lparr>env := e', policy := p', raw_observation := obs',
            rewards := rewards s @ [reward], terminated := Some t,
            trace := trace s @ Stepped (convert_6_to_7 X (scale_action a6)) reward t trunc
                       # frame_events (sensor_data obs'),
            done_flag := (t \<or> trunc \<or> done_flag s), step := Suc (step s)\<rparr>"
    by (rule loop_body_InrE)
  show "frames s' = frames s" using s' by simp
  show "list_all (\<lambda>item. rgb_ok (snd item)) (sensor_data (raw_observation s'))"
    using ok s' by (simp add: list_all_iff item_ok_def)
  show "\<exists>a r t u. trace s' = trace s @ Stepped a r t u
            # map (\<lambda>(uid, data). Appended uid (first_three_channels data))
                (sensor_data (raw_observation s'))"
    using s' by (simp add: frame_events_def)
next
  assume "map_of data ''rgb'' = Some (x # others)"
  then show "first_three_channels data = map (map (\<lambda>px. map astype_uint8 (take 3 px))) x"
    by (rule first_three_channels_rgb)
next
  assume run: "agent_eval X = Some r"
  then show "frames (final_state r) = []"
  proof (cases rule: agent_eval_cases)
    case (aborted err s)
    with rollout_aborted(2)[of X err s] show ?thesis by (simp add: final_state_def)
  next
    case (normal s s0 t)
    with rollout_normal(1)[of X s0] show ?thesis by (simp add: final_state_def run_inv_def)
  qed
  from run show "list_all at_most_rgb (trace (final_state r))"
  proof (cases rule: agent_eval_cases)
    case (aborted err s)
    with at_most_rgb_rollout[of X "Inl (err, s)"] show ?thesis by simp
  next
    case (normal s s0 t)
    with at_most_rgb_rollout[of X "Inr s0"] show ?thesis
      by (simp add: final_state_def list_all_iff) auto
  qed
qed

lemma demo_step1:
  "loop_body demo_externals (init_state demo_externals) =
   Inr \<lparr>env = 1, policy = (), raw_observation = demo_obs, rewards = [1], frames = [],
        writers = [(''top_camera'', ''videos/top_camera.mp4''),
                   (''side_camera'', ''videos/side_camera.mp4''),
                   (''wrist_camera'', ''videos/wrist_camera.mp4'')],
        step = 1, done_flag = False, terminated = Some False,
        trace = [Opened ''top_camera'' ''videos/top_camera.mp4'' 30,
                 Opened ''side_camera'' ''videos/side_camera.mp4'' 30,
                 Opened ''wrist_camera'' ''videos/wrist_camera.mp4'' 30,
                 Stepped [[1 / 20, 1 / 20, 1 / 20, 1 / 5, 1 / 5, 1 / 5, 0]] 1 False False,
                 Appended ''top_camera'' [[[255, 0, 51]]],
                 Appended ''side_camera'' [[[255, 0, 51]]],
                 Appended ''wrist_camera'' [[[255, 0, 51]]]]\<rparr>"
  by (simp add: demo_init) (simp add: demo_defs)

theorem frames_are_rgb_of_new_observation_witness:
  "(\<exists>s'. loop_body demo_externals (init_state demo_externals) = Inr s'
      \<and> frames s' = []
      \<and> frames_written ''top_camera'' (trace s') = [Appended ''top_camera'' [[[255, 0, 51]]]])
   \<and> map_of [(''rgb'', demo_image)] ''rgb'' = Some (hd demo_image # tl demo_image)
   \<and> first_three_channels [(''rgb'', demo_image)] = [[[255, 0, 51]]]
   \<and> (\<exists>r. agent_eval demo_externals = Some r \<and> frames (final_state r) = []
         \<and> list_all at_most_rgb (trace (final_state r)))"
proof -
  obtain s' where s': "loop_body demo_externals (init_state demo_externals) = Inr s'"
    by (simp add: demo_step1)
  obtain s where "agent_eval demo_externals = Some (Inr s)"
    using demo_run by blast
  note inst = frames_are_rgb_of_new_observation[of demo_externals "init_state demo_externals" s'
      "[(''rgb'', demo_image)]" "hd demo_image" "tl demo_image" "Inr s"]
  have m: "map_of [(''rgb'', demo_image)] ''rgb'' = Some (hd demo_image # tl demo_image)"
    by (simp add: demo_image_def)
  have 1: "frames s' = []" using inst s' by (simp add: demo_init)
  have 2: "frames_written ''top_camera'' (trace s') = [Appended ''top_camera'' [[[255, 0, 51]]]]"
    using s' by (simp add: demo_step1) (auto simp: frames_written_def)
  have 3: "first_three_channels [(''rgb'', demo_image)] = [[[255, 0, 51]]]"
    using inst m by (simp add: demo_image_def astype_uint8_def)
  have 4: "frames (final_state (Inr s)) = [] \<and> list_all at_most_rgb (trace (final_state (Inr s)))"
    using inst \<open>agent_eval demo_externals = Some (Inr s)\<close> by simp
  from s' 1 2 m 3 4 \<open>agent_eval demo_externals = Some (Inr s)\<close> show ?thesis by blast
qed

subsection \<open>The report and the closing of the writers\<close>





subsection \<open>The life of a writer\<close>

lemma writer_events_append:
  "writer_events uid (xs @ ys) = writer_events uid xs @ writer_events uid ys"
  by (simp add: writer_events_def)

lemma writer_events_opened:
  "writer_events uid (map (\<lambda>u. Opened u (p u) f) us) =
     map (\<lambda>u. Opened u (p u) f) (filter (\<lambda>u. u = uid) us)"
  by (induction us) (auto simp: writer_events_def)

lemma writer_events_closed:
  "writer_events uid (map Closed us) = map Closed (filter (\<lambda>u. u = uid) us)"
  by (induction us) (auto simp: writer_events_def)

lemma filter_eq_distinct:
  "distinct us \<Longrightarrow> filter (\<lambda>u. u = uid) us = (if uid \<in> set us then [uid] else [])"
  by (induction us) auto

lemma writer_events_loop:
  "list_all (loop_event cams) xs \<Longrightarrow> \<exists>fs. writer_events uid xs = map (Appended uid) fs"
proof (induction xs)
  case Nil
  then show ?case by (simp add: writer_events_def)
next
  case (Cons ev xs)
  then obtain fs where fs: "writer_events uid xs = map (Appended uid) fs" by auto
  show ?case
  proof (cases ev)
    case (Appended u fr)
    show ?thesis
    proof (cases "u = uid")
      case True
      with Appended fs have "writer_events uid (ev # xs) = map (Appended uid) (fr # fs)"
        by (simp add: writer_events_def)
      then show ?thesis by blast
    next
      case False
      with Appended fs have "writer_events uid (ev # xs) = map (Appended uid) fs"
        by (simp add: writer_events_def)
      then show ?thesis by blast
    qed
  next
    case (Stepped a r t u)
    with fs have "writer_events uid (ev # xs) = map (Appended uid) fs"
      by (simp add: writer_events_def)
    then show ?thesis by blast
  qed (use Cons.prems in simp_all)
qed

lemma writer_events_loop_unknown:
  "list_all (loop_event cams) xs \<Longrightarrow> uid \<notin> set cams \<Longrightarrow> writer_events uid xs = []"
proof (induction xs)
  case Nil
  then show ?case by (simp add: writer_events_def)
next
  case (Cons ev xs)
  then have "writer_events uid xs = []" by simp
  with Cons.prems show ?case
    by (cases ev) (auto simp: writer_events_def)
qed

text \<open>
  C5. When the script ends normally and the initial observation lists each camera
  once, the dictionary holds exactly one writer per initial camera, and what
  happened to the writer of a camera is, in this order: it was opened once, with
  the camera's video path; then frames were appended; then it was closed once.
  So no frame is appended before the opening or after the closing. Nothing
  happened to a writer of any other identifier.
\<close>

theorem writer_lifecycle:
  assumes "agent_eval X = Some (Inr s)" and "distinct (camera_uids X)"
  shows "map fst (writers s) = camera_uids X
       \<and> (\<forall>uid \<in> set (camera_uids X). \<exists>fs.
             writer_events uid (trace s) =
               Opened uid (video_path uid) (fps X) # map (Appended uid) fs @ [Closed uid])
       \<and> (\<forall>uid. uid \<notin> set (camera_uids X) \<longrightarrow> writer_events uid (trace s) = [])"
proof -
  from assms(1) obtain s0 t where run: "rollout X (init_state X) = Some (Inr s0)"
    and s: "s = s0\<lparr>trace := trace s0 @ Printed (if t then ''Success!'' else ''Failure!'')
                          # map Closed (map fst (writers s0))\<rparr>"
    by (rule agent_eval_InrE)
  from rollout_normal(1)[OF run] have tr0: "trace s0 = open_events X @ loop_trace X s0"
    and ws: "writers s0 = writers (init_state X)"
    and ev: "list_all (loop_event (camera_uids X)) (loop_trace X s0)"
    by (simp_all add: run_inv_def)
  have keys: "map fst (writers s0) = camera_uids X"
    using ws assms(2) by (simp add: init_state_writers comp_def)
  have tr: "trace s = open_events X @ loop_trace X s0
              @ Printed (if t then ''Success!'' else ''Failure!'') # map Closed (camera_uids X)"
    using s tr0 keys by simp
  have we: "writer_events uid (trace s) =
        map (\<lambda>u. Opened u (video_path u) (fps X)) (if uid \<in> set (camera_uids X) then [uid] else [])
        @ writer_events uid (loop_trace X s0)
        @ map Closed (if uid \<in> set (camera_uids X) then [uid] else [])" for uid
  proof -
    have "writer_events uid (Printed (if t then ''Success!'' else ''Failure!'') # map Closed (camera_uids X))
          = writer_events uid (map Closed (camera_uids X))"
      by (simp add: writer_events_def)
    then show ?thesis
      unfolding tr writer_events_append open_events_def
      by (simp only: writer_events_opened writer_events_closed filter_eq_distinct[OF assms(2)])
  qed
  have 1: "map fst (writers s) = camera_uids X" using s keys by simp
  have 2: "\<exists>fs. writer_events uid (trace s) =
               Opened uid (video_path uid) (fps X) # map (Appended uid) fs @ [Closed uid]"
    if "uid \<in> set (camera_uids X)" for uid
  proof -
    from writer_events_loop[OF ev, of uid] obtain fs where
      "writer_events uid (loop_trace X s0) = map (Appended uid) fs" ..
    with we[of uid] that
    have "writer_events uid (trace s) =
            Opened uid (video_path uid) (fps X) # map (Appended uid) fs @ [Closed uid]"
      by simp
    then show ?thesis by (rule exI)
  qed
  have 3: "writer_events uid (trace s) = []" if "uid \<notin> set (camera_uids X)" for uid
    using we[of uid] that writer_events_loop_unknown[OF ev that] by simp
  from 1 2 3 show ?thesis by blast
qed

lemma demo_cameras:
  "camera_uids demo_externals = [''top_camera'', ''side_camera'', ''wrist_camera'']"
  by (simp add: camera_uids_def demo_externals_def demo_obs_def)

lemma demo_fps: "fps demo_externals = 30"
  by (simp add: fps_def demo_externals_def)

theorem writer_lifecycle_witness:
  "distinct (camera_uids demo_externals)
   \<and> (\<exists>s. agent_eval demo_externals = Some (Inr s)
        \<and> map fst (writers s) = [''top_camera'', ''side_camera'', ''wrist_camera'']
        \<and> (\<exists>fs. writer_events ''side_camera'' (trace s) =
               Opened ''side_camera'' ''videos/side_camera.mp4'' 30
                 # map (Appended ''side_camera'') fs @ [Closed ''side_camera''])
        \<and> writer_events ''hand_camera'' (trace s) = [])"
proof -
  have d: "distinct (camera_uids demo_externals)"
    by (simp add: demo_cameras)
  obtain s where s: "agent_eval demo_externals = Some (Inr s)"
    using demo_run by blast
  from writer_lifecycle[OF s d]
  have ws: "map fst (writers s) = camera_uids demo_externals"
    and known: "\<forall>uid \<in> set (camera_uids demo_externals). \<exists>fs.
             writer_events uid (trace s) =
               Opened uid (video_path uid) (fps demo_externals)
                 # map (Appended uid) fs @ [Closed uid]"
    and unknown: "\<forall>uid. uid \<notin> set (camera_uids demo_externals)
                    \<longrightarrow> writer_events uid (trace s) = []"
    by blast+
  have "''side_camera'' \<in> set (camera_uids demo_externals)"
    by (simp add: demo_cameras)
  with known have "\<exists>fs. writer_events ''side_camera'' (trace s) =
               Opened ''side_camera'' (video_path ''side_camera'') (fps demo_externals)
                 # map (Appended ''side_camera'') fs @ [Closed ''side_camera'']"
    by (rule bspec)
  then have 2: "\<exists>fs. writer_events ''side_camera'' (trace s) =
               Opened ''side_camera'' ''videos/side_camera.mp4'' 30
                 # map (Appended ''side_camera'') fs @ [Closed ''side_camera'']"
    by (simp add: demo_paths demo_fps)
  have "''hand_camera'' \<notin> set (camera_uids demo_externals)"
    by (simp add: demo_cameras)
  with unknown have 3: "writer_events ''hand_camera'' (trace s) = []"
    by blast
  from ws have 1: "map fst (writers s) = [''top_camera'', ''side_camera'', ''wrist_camera'']"
    by (simp add: demo_cameras)
  show ?thesis
    by (intro conjI exI[of _ s]) (rule d s 1 2 3)+
qed

subsection \<open>Videos and frames\<close>

lemma opened_files_append: "opened_files (xs @ ys) = opened_files xs @ opened_files ys"
  by (simp add: opened_files_def)

lemma opened_files_opened:
  "opened_files (map (\<lambda>u. Opened u (p u) f) us) = map (\<lambda>u. (u, p u)) us"
  by (induction us) (simp_all add: opened_files_def)

lemma opened_files_open_events:
  "opened_files (open_events X) = map (\<lambda>u. (u, video_path u)) (camera_uids X)"
  by (simp add: open_events_def opened_files_opened)

lemma opened_files_loop: "list_all (loop_event cams) xs \<Longrightarrow> opened_files xs = []"
proof (induction xs)
  case Nil
  then show ?case by (simp add: opened_files_def)
next
  case (Cons ev xs)
  then have "opened_files xs = []" by simp
  with Cons.prems show ?case by (cases ev) (simp_all add: opened_files_def)
qed

lemma opened_files_closed: "opened_files (Printed m # map Closed us) = []"
  by (induction us) (simp_all add: opened_files_def)

lemma frames_written_append:
  "frames_written uid (xs @ ys) = frames_written uid xs @ frames_written uid ys"
  by (simp add: frames_written_def)

lemma frames_written_frame_events_unknown:
  "uid \<notin> fst ` set items \<Longrightarrow> frames_written uid (frame_events items) = []"
  by (induction items) (auto simp: frames_written_def frame_events_def)

lemma frames_written_frame_events:
  "distinct (map fst items) \<Longrightarrow> uid \<in> fst ` set items
   \<Longrightarrow> length (frames_written uid (frame_events items)) = 1"
proof (induction items)
  case Nil
  then show ?case by simp
next
  case (Cons item items)
  obtain u data where item: "item = (u, data)" by (cases item)
  show ?case
  proof (cases "u = uid")
    case True
    with Cons.prems item have "uid \<notin> fst ` set items" by auto
    from frames_written_frame_events_unknown[OF this] True item show ?thesis
      by (simp add: frames_written_def frame_events_def)
  next
    case False
    with Cons.prems item have "distinct (map fst items)" "uid \<in> fst ` set items" by auto
    from Cons.IH[OF this] False item show ?thesis
      by (simp add: frames_written_def frame_events_def)
  qed
qed

lemma frames_written_step:
  "frames_written uid (Stepped a r t u # xs) = frames_written uid xs"
  by (simp add: frames_written_def)

lemma frames_written_open_events: "frames_written uid (open_events X) = []"
  by (simp add: frames_written_def open_events_def filter_empty_conv)

lemma frames_written_closed: "frames_written uid (Printed m # map Closed us) = []"
  by (simp add: frames_written_def filter_empty_conv)

lemma env_steps_open_events: "env_steps (open_events X) = []"
  by (simp add: env_steps_def open_events_def filter_empty_conv)

lemma env_steps_closed: "env_steps (Printed m # map Closed us) = []"
  by (simp add: env_steps_def filter_empty_conv)

text \<open>
  C4, as stated, fails. The episode \<open>side_camera_lost\<close> starts with three cameras;
  its only step succeeds and returns an observation without the side camera; the
  script ends normally with one call of \<^verbatim>\<open>env.step\<close> and no frame in the video of
  the side camera.
\<close>

theorem side_camera_gets_no_frame:
  "agent_eval side_camera_lost = Some (Inr side_camera_lost_end)
   \<and> camera_uids side_camera_lost = [''top_camera'', ''side_camera'', ''wrist_camera'']
   \<and> length (env_steps (trace side_camera_lost_end)) = 1
   \<and> frames_written ''side_camera'' (trace side_camera_lost_end) = []"
proof (intro conjI)
  have init: "init_state side_camera_lost = init_state demo_externals"
    by (simp add: init_state_eq side_camera_lost_def demo_externals_def fps_def camera_uids_def)
  show "agent_eval side_camera_lost = Some (Inr side_camera_lost_end)"
    apply (simp add: agent_eval_def init demo_init)
    apply (subst rollout.simps)
    apply (simp add: side_camera_lost_def demo_defs)
    apply (subst rollout.simps)
    apply (simp add: teardown_def)
    apply (simp add: side_camera_lost_end_def)
    done
  show "camera_uids side_camera_lost = [''top_camera'', ''side_camera'', ''wrist_camera'']"
    by (simp add: camera_uids_def side_camera_lost_def demo_externals_def demo_obs_def)
  show "length (env_steps (trace side_camera_lost_end)) = 1"
    by (simp add: side_camera_lost_end_def env_steps_def)
  show "frames_written ''side_camera'' (trace side_camera_lost_end) = []"
    by (simp add: side_camera_lost_end_def frames_written_def)
qed

subsection \<open>The step cap\<close>

lemma with_time_limit_step:
  assumes "env_step (with_time_limit cap X) en a = (en', obs', reward, t, trunc)"
  shows "fst en' = Suc (fst en)" and "cap \<le> Suc (fst en) \<Longrightarrow> trunc"
  using assms
  by (auto simp: with_time_limit_def split: prod.splits)

lemma env_steps_trace_final:
  "length (env_steps (xs @ Stepped a r t u # frame_events items)) = Suc (length (env_steps xs))"
  by (simp add: env_steps_append env_steps_step)

lemma capped_rollout_terminates:
  assumes "fst (env s) = step s" and "length (env_steps (trace s)) = step s"
    and "step s \<le> cap" and "step s = cap \<longrightarrow> done_flag s"
  shows "\<exists>r. rollout (with_time_limit cap X) s = Some r
           \<and> step (final_state r) \<le> cap
           \<and> length (env_steps (trace (final_state r))) \<le> cap"
  using assms
proof (induction "cap - step s" arbitrary: s rule: less_induct)
  case less
  let ?X = "with_time_limit cap X"
  show ?case
  proof (cases "done_flag s")
    case True
    then have "rollout ?X s = Some (Inr s)" by (rule rollout_done)
    with less.prems show ?thesis by (simp add: final_state_def)
  next
    case False
    with less.prems have lt: "step s < cap" by auto
    show ?thesis
    proof (cases "loop_body ?X s")
      case (Inl a)
      obtain err s' where a: "a = (err, s')" by (cases a)
      with Inl have body: "loop_body ?X s = Inl (err, s')" by simp
      with False have run: "rollout ?X s = Some (Inl (err, s'))" by (rule rollout_abort)
      from body have "step s' \<le> cap \<and> length (env_steps (trace s')) \<le> cap"
      proof (cases rule: loop_body_InlE)
        case no_batch
        with less.prems show ?thesis by simp
      next
        case (no_frame b a6 p' e' obs' reward t trunc k)
        from no_frame(7) have "step s' = step s" by simp
        moreover from no_frame(7)
        have "length (env_steps (trace s')) = Suc (length (env_steps (trace s)))"
          by (simp add: env_steps_trace_final)
        ultimately show ?thesis using less.prems lt by simp
      qed
      with run show ?thesis by (simp add: final_state_def)
    next
      case (Inr s')
      with False have run: "rollout ?X s = rollout ?X s'" by (rule rollout_continue)
      from Inr obtain b a6 p' e' obs' reward t trunc where
        es: "env_step ?X (env s) (convert_6_to_7 ?X (scale_action a6)) = (e', obs', reward, t, trunc)"
        and s': "s' = s\<lparr>env := e', policy := p', raw_observation := obs',
            rewards := rewards s @ [reward], terminated := Some t,
            trace := trace s @ Stepped (convert_6_to_7 ?X (scale_action a6)) reward t trunc
                       # frame_events (sensor_data obs'),
            done_flag := (t \<or> trunc \<or> done_flag s), step := Suc (step s)\<rparr>"
        by (rule loop_body_InrE)
      from with_time_limit_step[OF es] less.prems(1)
      have e': "fst e' = Suc (step s)" and tr: "cap \<le> Suc (step s) \<Longrightarrow> trunc" by simp_all
      have 1: "fst (env s') = step s'" using s' e' by simp
      have 2: "length (env_steps (trace s')) = step s'"
        using s' less.prems(2) by (simp add: env_steps_trace_final)
      have 3: "step s' \<le> cap" using s' lt by simp
      have 4: "step s' = cap \<longrightarrow> done_flag s'" using s' tr by simp
      have "cap - step s' < cap - step s" using s' lt by simp
      from less.hyps[OF this 1 2 3 4] run show ?thesis by simp
    qed
  qed
qed

lemma with_time_limit_init:
  "fst (env (init_state (with_time_limit cap X))) = 0"
  by (simp add: init_state_fields with_time_limit_def split: prod.splits)

text \<open>
  C3. With an environment that enforces the episode-length cap of 500 steps
  through its truncation flag, the script always ends, normally or by an uncaught
  error, whatever the environment and the policy do otherwise (the terminated
  flag may stay false for ever): at the end \<open>step\<close> is at most 500 and
  \<^verbatim>\<open>env.step\<close> has been called at most 500 times.
\<close>

theorem rollout_ends_within_step_cap:
  "\<exists>r. agent_eval (with_time_limit max_episode_steps X) = Some r
       \<and> step (final_state r) \<le> 500
       \<and> length (env_steps (trace (final_state r))) \<le> 500"
proof -
  let ?X = "with_time_limit max_episode_steps X"
  have "\<exists>r. rollout ?X (init_state ?X) = Some r
           \<and> step (final_state r) \<le> max_episode_steps
           \<and> length (env_steps (trace (final_state r))) \<le> max_episode_steps"
  proof (rule capped_rollout_terminates)
    show "fst (env (init_state ?X)) = step (init_state ?X)"
      by (simp only: with_time_limit_init init_state_fields(1))
    show "length (env_steps (trace (init_state ?X))) = step (init_state ?X)"
      by (simp add: init_state_trace env_steps_open_events init_state_fields)
    show "step (init_state ?X) \<le> max_episode_steps"
      by (simp add: init_state_fields)
    show "step (init_state ?X) = max_episode_steps \<longrightarrow> done_flag (init_state ?X)"
      by (simp add: init_state_fields max_episode_steps_def)
  qed
  then obtain r where run: "rollout ?X (init_state ?X) = Some r"
    and st: "step (final_state r) \<le> 500"
    and es: "length (env_steps (trace (final_state r))) \<le> 500"
    by (auto simp: max_episode_steps_def)
  show ?thesis
  proof (cases r)
    case (Inl a)
    with run have "agent_eval ?X = Some r" by (simp add: agent_eval_def)
    with st es show ?thesis by blast
  next
    case (Inr s0)
    from run Inr have "rollout ?X (init_state ?X) = Some (Inr s0)" by simp
    from agent_eval_normal[OF this] obtain t where
      ev: "agent_eval ?X = Some (Inr (s0\<lparr>trace := trace s0
              @ Printed (if t then ''Success!'' else ''Failure!'')
                # map Closed (map fst (writers s0))\<rparr>))"
      by (elim exE conjE)
    let ?s = "s0\<lparr>trace := trace s0 @ Printed (if t then ''Success!'' else ''Failure!'')
                # map Closed (map fst (writers s0))\<rparr>"
    have "step (final_state (Inr ?s)) \<le> 500"
      using st Inr by (simp add: final_state_def)
    moreover have "length (env_steps (trace (final_state (Inr ?s)))) \<le> 500"
    proof -
      have "env_steps (trace s0 @ Printed (if t then ''Success!'' else ''Failure!'')
                # map Closed (map fst (writers s0))) = env_steps (trace s0)"
        unfolding env_steps_append env_steps_closed by simp
      then have "env_steps (trace ?s) = env_steps (trace s0)" by simp
      then show ?thesis using es Inr by (simp add: final_state_def)
    qed
    ultimately show ?thesis using ev by (intro exI[of _ "Inr ?s"] conjI)
  qed
qed

theorem rollout_ends_within_step_cap_witness:
  "\<exists>r. agent_eval (with_time_limit max_episode_steps never_terminated) = Some r
       \<and> step (final_state r) \<le> 500
       \<and> length (env_steps (trace (final_state r))) \<le> 500"
  by (rule rollout_ends_within_step_cap)

subsection \<open>Cameras that come and go\<close>

lemma item_ok_known: "list_all (item_ok ws) items \<Longrightarrow> fst ` set items \<subseteq> fst ` set ws"
  by (auto simp: list_all_iff item_ok_def)

text \<open>
  C9. Take an iteration that starts with the writers of the initial observation
  and in which \<^verbatim>\<open>env.step\<close> is reached and returns the observation \<open>obs'\<close>.
  If \<open>obs'\<close> lists a camera that the initial observation did not have, the loop
  ends there with an uncaught error, and when every camera entry of \<open>obs'\<close> has a
  non-empty \<^verbatim>\<open>rgb\<close> tensor the error is the \<^verbatim>\<open>KeyError\<close> of such a camera. If the
  observation lacks an initial camera and every entry it has can be handled, the
  iteration completes and that camera's writer receives no frame in it.
\<close>

theorem camera_set_mismatch:
  assumes ws: "writers s = writers (init_state X)" and nd: "\<not> done_flag s"
    and b: "make_batch X (raw_observation s) = Inr b"
    and sa: "select_action X (policy s) b = (a6, p')"
    and es: "env_step X (env s) (convert_6_to_7 X (scale_action a6)) = (e', obs', reward, t, trunc)"
  shows "(uid \<in> fst ` set (sensor_data obs') \<and> uid \<notin> set (camera_uids X) \<longrightarrow>
            (\<exists>err s'. rollout X s = Some (Inl (err, s'))
               \<and> (list_all (\<lambda>item. rgb_ok (snd item)) (sensor_data obs') \<longrightarrow>
                    (\<exists>u. err = KeyError u \<and> u \<notin> set (camera_uids X)
                         \<and> u \<in> fst ` set (sensor_data obs')))))
       \<and> (uid \<in> set (camera_uids X) \<and> uid \<notin> fst ` set (sensor_data obs')
            \<and> list_all (item_ok (writers s)) (sensor_data obs') \<longrightarrow>
            (\<exists>s'. loop_body X s = Inr s'
               \<and> frames_written uid (trace s') = frames_written uid (trace s)))"
proof (intro conjI impI)
  have keys: "fst ` set (writers s) = set (camera_uids X)"
    using ws by (simp add: init_state_writers_keys)
  assume "uid \<in> fst ` set (sensor_data obs') \<and> uid \<notin> set (camera_uids X)"
  then have new: "uid \<in> fst ` set (sensor_data obs')" "uid \<notin> fst ` set (writers s)"
    using keys by simp_all
  then have bad: "\<not> list_all (item_ok (writers s)) (sensor_data obs')"
    using item_ok_known[of "writers s" "sensor_data obs'"] by auto
  show "\<exists>err s'. rollout X s = Some (Inl (err, s'))
               \<and> (list_all (\<lambda>item. rgb_ok (snd item)) (sensor_data obs') \<longrightarrow>
                    (\<exists>u. err = KeyError u \<and> u \<notin> set (camera_uids X)
                         \<and> u \<in> fst ` set (sensor_data obs')))"
  proof (cases "loop_body X s")
    case (Inr s')
    then have "list_all (item_ok (writers s)) (sensor_data obs')"
    proof (rule loop_body_InrE)
      fix b1 a1 p1 e1 obs1 r1 t1 u1
      assume "make_batch X (raw_observation s) = Inr b1"
        "select_action X (policy s) b1 = (a1, p1)"
        "env_step X (env s) (convert_6_to_7 X (scale_action a1)) = (e1, obs1, r1, t1, u1)"
        "list_all (item_ok (writers s)) (sensor_data obs1)"
      with b sa es show ?thesis by simp
    qed
    with bad show ?thesis by simp
  next
    case (Inl a)
    obtain err s' where a: "a = (err, s')" by (cases a)
    with Inl have body: "loop_body X s = Inl (err, s')" by simp
    with nd have run: "rollout X s = Some (Inl (err, s'))" by (rule rollout_abort)
    have "\<exists>u. err = KeyError u \<and> u \<notin> set (camera_uids X) \<and> u \<in> fst ` set (sensor_data obs')"
      if ok: "list_all (\<lambda>item. rgb_ok (snd item)) (sensor_data obs')"
      using body
    proof (cases rule: loop_body_InlE)
      case no_batch
      with b show ?thesis by simp
    next
      case (no_frame b1 a1 p1 e1 obs1 r1 t1 u1 k)
      with b sa es have obs1: "obs1 = obs'" by simp
      let ?item = "sensor_data obs' ! k"
      from no_frame(4) obs1 have k: "k < length (sensor_data obs')" by simp
      then have mem: "?item \<in> set (sensor_data obs')" by simp
      with ok have rgb: "rgb_ok (snd ?item)" by (simp add: list_all_iff)
      from no_frame(6) obs1 rgb have "fst ?item \<notin> fst ` set (writers s)"
        by (simp add: item_ok_def)
      with keys have 1: "fst ?item \<notin> set (camera_uids X)" by simp
      from mem have 2: "fst ?item \<in> fst ` set (sensor_data obs')" by (rule imageI)
      from no_frame(8) obs1 rgb have 3: "err = KeyError (fst ?item)"
        by (simp add: item_error_rgb_ok)
      from 3 1 2 show ?thesis by (intro exI[of _ "fst ?item"] conjI)
    qed
    with run show ?thesis by (intro exI[of _ err] exI[of _ s'] conjI impI)
  qed
next
  assume a: "uid \<in> set (camera_uids X) \<and> uid \<notin> fst ` set (sensor_data obs')
            \<and> list_all (item_ok (writers s)) (sensor_data obs')"
  then have ok: "list_all (item_ok (writers s)) (sensor_data obs')"
    and absent: "uid \<notin> fst ` set (sensor_data obs')" by simp_all
  let ?s' = "s\<lparr>env := e', policy := p', raw_observation := obs',
            rewards := rewards s @ [reward], terminated := Some t,
            trace := trace s @ Stepped (convert_6_to_7 X (scale_action a6)) reward t trunc
                       # frame_events (sensor_data obs'),
            done_flag := (t \<or> trunc \<or> done_flag s), step := Suc (step s)\<rparr>"
  from b sa es ok have body: "loop_body X s = Inr ?s'" by (rule loop_body_ok)
  have "frames_written uid (trace ?s') = frames_written uid (trace s)"
    using frames_written_frame_events_unknown[OF absent]
    by (simp add: frames_written_append frames_written_step)
  with body show "\<exists>s'. loop_body X s = Inr s'
               \<and> frames_written uid (trace s') = frames_written uid (trace s)"
    by (intro exI[of _ ?s'] conjI)
qed


lemma extra_camera_seen_init:
  "init_state extra_camera_seen = init_state demo_externals"
  by (simp add: init_state_eq extra_camera_seen_def demo_externals_def fps_def camera_uids_def)

lemma side_camera_lost_init:
  "init_state side_camera_lost = init_state demo_externals"
  by (simp add: init_state_eq side_camera_lost_def demo_externals_def fps_def camera_uids_def)

lemma make_batch_cong:
  "convert_7_to_6 X = convert_7_to_6 Y \<Longrightarrow> make_batch X obs = make_batch Y obs"
  by (simp add: make_batch_def split: sum.splits)

theorem camera_set_mismatch_witness:
  "\<not> done_flag (init_state extra_camera_seen)
   \<and> ''hand_camera'' \<notin> set (camera_uids extra_camera_seen)
   \<and> (\<exists>err s'. rollout extra_camera_seen (init_state extra_camera_seen) = Some (Inl (err, s'))
         \<and> (\<exists>u. err = KeyError u \<and> u \<notin> set (camera_uids extra_camera_seen)))
   \<and> ''side_camera'' \<in> set (camera_uids side_camera_lost)
   \<and> (\<exists>s'. loop_body side_camera_lost (init_state side_camera_lost) = Inr s'
         \<and> frames_written ''side_camera'' (trace s')
             = frames_written ''side_camera'' (trace (init_state side_camera_lost)))"
proof -
  let ?X = extra_camera_seen and ?Y = side_camera_lost
  let ?b = "\<lparr>observation_state = [[2, 0, 0, 0, 0, 0]],
          observation_image2 = [[[[1]], [[0]], [[1 / 5]], [[1]]]],
          observation_image = [[[[1]], [[0]], [[1 / 5]], [[1]]]],
          observation_image3 = [[[[1]], [[0]], [[1 / 5]], [[1]]]],
          task = ''Pick up the red cube.''\<rparr>"
  let ?a = "[[1, 1, 1, 1, 1, 1]] :: real list list"
  let ?obsX = "demo_obs\<lparr>sensor_data := sensor_data demo_obs
                                          @ [(''hand_camera'', [(''rgb'', demo_image)])]\<rparr>"
  let ?obsY = "demo_obs\<lparr>sensor_data := [(''top_camera'', [(''rgb'', demo_image)]),
                                          (''wrist_camera'', [(''rgb'', demo_image)])]\<rparr>"
  have camsX: "camera_uids ?X = [''top_camera'', ''side_camera'', ''wrist_camera'']"
    by (simp add: camera_uids_def extra_camera_seen_def demo_externals_def demo_obs_def)
  have camsY: "camera_uids ?Y = [''top_camera'', ''side_camera'', ''wrist_camera'']"
    by (simp add: camera_uids_def side_camera_lost_def demo_externals_def demo_obs_def)
  have ndX: "\<not> done_flag (init_state ?X)" and ndY: "\<not> done_flag (init_state ?Y)"
    by (simp_all add: init_state_fields)
  have bX: "make_batch ?X (raw_observation (init_state ?X)) = Inr ?b"
    using make_batch_cong[of ?X demo_externals demo_obs]
    by (simp add: extra_camera_seen_init demo_init demo_batch) (simp add: extra_camera_seen_def)
  have bY: "make_batch ?Y (raw_observation (init_state ?Y)) = Inr ?b"
    using make_batch_cong[of ?Y demo_externals demo_obs]
    by (simp add: side_camera_lost_init demo_init demo_batch) (simp add: side_camera_lost_def)
  have saX: "select_action ?X (policy (init_state ?X)) ?b = (?a, ())"
    by (simp add: extra_camera_seen_def demo_externals_def)
  have saY: "select_action ?Y (policy (init_state ?Y)) ?b = (?a, ())"
    by (simp add: side_camera_lost_def demo_externals_def)
  have esX: "env_step ?X (env (init_state ?X)) (convert_6_to_7 ?X (scale_action ?a))
               = (1, ?obsX, 1, True, False)"
    by (simp add: extra_camera_seen_init demo_init) (simp add: extra_camera_seen_def)
  have esY: "env_step ?Y (env (init_state ?Y)) (convert_6_to_7 ?Y (scale_action ?a))
               = (1, ?obsY, 1, True, False)"
    by (simp add: side_camera_lost_init demo_init) (simp add: side_camera_lost_def)
  note instX = camera_set_mismatch[OF refl ndX bX saX esX, of "''hand_camera''", THEN conjunct1]
  note instY = camera_set_mismatch[OF refl ndY bY saY esY, of "''side_camera''", THEN conjunct2]
  have newX: "''hand_camera'' \<in> fst ` set (sensor_data ?obsX)
              \<and> ''hand_camera'' \<notin> set (camera_uids ?X)"
    by (simp add: camsX demo_obs_def)
  have rgbX: "list_all (\<lambda>item. rgb_ok (snd item)) (sensor_data ?obsX)"
    by (simp add: demo_obs_def rgb_ok_def demo_image_def)
  from instX[rule_format, OF newX] obtain err s' where
    run: "rollout ?X (init_state ?X) = Some (Inl (err, s'))"
    and err: "list_all (\<lambda>item. rgb_ok (snd item)) (sensor_data ?obsX) \<longrightarrow>
                    (\<exists>u. err = KeyError u \<and> u \<notin> set (camera_uids ?X)
                         \<and> u \<in> fst ` set (sensor_data ?obsX))"
    by (elim exE conjE)
  from err[rule_format, OF rgbX] obtain u where "err = KeyError u" "u \<notin> set (camera_uids ?X)"
    by (elim exE conjE)
  with run have 1: "\<exists>err s'. rollout ?X (init_state ?X) = Some (Inl (err, s'))
         \<and> (\<exists>u. err = KeyError u \<and> u \<notin> set (camera_uids ?X))"
    by (intro exI[of _ err] exI[of _ s'] exI[of _ u] conjI)
  have wsY: "writers (init_state ?Y) =
      [(''top_camera'', ''videos/top_camera.mp4''),
       (''side_camera'', ''videos/side_camera.mp4''),
       (''wrist_camera'', ''videos/wrist_camera.mp4'')]"
    by (simp add: side_camera_lost_init demo_init)
  have lostY: "''side_camera'' \<in> set (camera_uids ?Y)
              \<and> ''side_camera'' \<notin> fst ` set (sensor_data ?obsY)
              \<and> list_all (item_ok (writers (init_state ?Y))) (sensor_data ?obsY)"
    by (simp add: camsY wsY item_ok_def rgb_ok_def demo_image_def)
  from instY[rule_format, OF lostY]
  have 2: "\<exists>s'. loop_body ?Y (init_state ?Y) = Inr s'
         \<and> frames_written ''side_camera'' (trace s')
             = frames_written ''side_camera'' (trace (init_state ?Y))" .
  have 3: "''hand_camera'' \<notin> set (camera_uids ?X)" by (simp add: camsX)
  have 4: "''side_camera'' \<in> set (camera_uids ?Y)" by (simp add: camsY)
  show ?thesis
    by (intro conjI) (rule ndX 3 1 4 2)+
qed

subsection \<open>The policy input\<close>

lemma list_all_transpose:
  assumes "list_all (list_all Q) xs"
  shows "list_all (list_all Q) (transpose xs)"
proof -
  have "Q v" if row: "row \<in> set (transpose xs)" and v: "v \<in> set row" for row v
  proof -
    from row obtain i where i: "i < length (transpose xs)" and r: "row = transpose xs ! i"
      by (auto simp: in_set_conv_nth)
    from r nth_transpose[OF i]
    have "row = map (\<lambda>ys. ys ! i) (filter (\<lambda>ys. i < length ys) xs)" by simp
    with v obtain ys where "ys \<in> set xs" "i < length ys" "v = ys ! i" by auto
    with assms show ?thesis by (auto simp: list_all_iff)
  qed
  then show ?thesis by (auto simp: list_all_iff)
qed

lemma list_all_map_transpose:
  "list_all (list_all (list_all P)) x \<Longrightarrow> list_all (list_all (list_all P)) (map transpose x)"
  by (induction x) (simp_all add: list_all_transpose)

lemma all_elements_permute_one:
  "list_all (list_all (list_all P)) x
   \<Longrightarrow> list_all (list_all (list_all P)) (transpose (map transpose x))"
  by (intro list_all_transpose list_all_map_transpose)

lemma all_elements_permute:
  "all_elements P img \<Longrightarrow> all_elements P (permute_0312 img)"
  unfolding all_elements_def permute_0312_def
  by (induction img) (simp_all add: all_elements_permute_one)

lemma all_elements_div_255:
  "all_elements (\<lambda>v. 0 \<le> v \<and> v \<le> 255) img
   \<Longrightarrow> all_elements (\<lambda>v. 0 \<le> v \<and> v \<le> 1) (div_255 img)"
  by (simp add: all_elements_def div_255_def list_all_iff)

lemma preprocess_image_range:
  "all_elements (\<lambda>v. 0 \<le> v \<and> v \<le> 255) img
   \<Longrightarrow> all_elements (\<lambda>v. 0 \<le> v \<and> v \<le> 1) (preprocess_image img)"
  unfolding preprocess_image_def
  by (intro all_elements_div_255 all_elements_permute)


lemma transpose_rows:
  assumes "y \<noteq> []" and "\<And>px. px \<in> set y \<Longrightarrow> length px = c"
  shows "transpose y = map (\<lambda>k. map (\<lambda>px. px ! k) y) [0..<c]"
proof -
  have "transpose y = map (\<lambda>k. map (\<lambda>j. y ! j ! k) [0..<length y]) [0..<c]"
    using assms by (intro transpose_rectangle) simp_all
  moreover have "map (\<lambda>j. y ! j ! k) [0..<length y] = map (\<lambda>px. px ! k) y" for k
    by (rule nth_equalityI) simp_all
  ultimately show ?thesis by simp
qed

lemma permute_one:
  assumes h: "x \<noteq> []"
    and w: "\<And>row. row \<in> set x \<Longrightarrow> row \<noteq> []"
    and c: "\<And>row px. row \<in> set x \<Longrightarrow> px \<in> set row \<Longrightarrow> length px = c"
  shows "transpose (map transpose x) = map (\<lambda>k. map (map (\<lambda>px. px ! k)) x) [0..<c]"
proof -
  have rows: "transpose row = map (\<lambda>k. map (\<lambda>px. px ! k) row) [0..<c]" if "row \<in> set x" for row
    using w[OF that] c[OF that] by (rule transpose_rows)
  have "transpose (map transpose x) = map (\<lambda>k. map (\<lambda>t. t ! k) (map transpose x)) [0..<c]"
  proof (rule transpose_rows)
    show "map transpose x \<noteq> []" using h by simp
    fix t assume "t \<in> set (map transpose x)"
    then obtain row where "row \<in> set x" "t = transpose row" by auto
    with rows show "length t = c" by simp
  qed
  also have "\<dots> = map (\<lambda>k. map (map (\<lambda>px. px ! k)) x) [0..<c]"
  proof (rule map_cong[OF refl])
    fix k assume "k \<in> set [0..<c]"
    then have k: "k < c" by simp
    show "map (\<lambda>t. t ! k) (map transpose x) = map (map (\<lambda>px. px ! k)) x"
      using rows k by (simp add: comp_def)
  qed
  finally show ?thesis .
qed

lemma preprocess_image_layout:
  assumes "has_shape img n h w c" and "0 < h" and "0 < w"
  shows "preprocess_image img =
           map (\<lambda>x. map (\<lambda>k. map (map (\<lambda>px. px ! k / 255)) x) [0..<c]) img"
proof -
  have "map (map (map (\<lambda>v. v / 255))) (transpose (map transpose x))
          = map (\<lambda>k. map (map (\<lambda>px. px ! k / 255)) x) [0..<c]"
    if x: "x \<in> set img" for x
  proof -
    from assms x have len: "length x = h"
      and rows: "\<And>row. row \<in> set x \<Longrightarrow> length row = w"
      and px: "\<And>row px. row \<in> set x \<Longrightarrow> px \<in> set row \<Longrightarrow> length px = c"
      by (auto simp: has_shape_def list_all_iff)
    have "transpose (map transpose x) = map (\<lambda>k. map (map (\<lambda>px. px ! k)) x) [0..<c]"
    proof (rule permute_one)
      show "x \<noteq> []" using len \<open>0 < h\<close> by auto
      show "row \<noteq> []" if "row \<in> set x" for row using rows[OF that] \<open>0 < w\<close> by auto
      show "length p = c" if "row \<in> set x" "p \<in> set row" for row p using px[OF that] .
    qed
    then show ?thesis by (simp add: comp_def)
  qed
  then show ?thesis
    by (simp add: preprocess_image_def div_255_def permute_0312_def comp_def)
qed


lemma make_batch_InrE:
  assumes "make_batch X obs = Inr b"
  obtains raw_pose top_image side_image wrist_image where
    "lookup_key ''tcp_pose'' (extra obs) = Inr raw_pose"
    "camera_rgb obs ''top_camera'' = Inr top_image"
    "camera_rgb obs ''side_camera'' = Inr side_image"
    "camera_rgb obs ''wrist_camera'' = Inr wrist_image"
    "b = \<lparr>observation_state = [convert_7_to_6 X raw_pose],
          observation_image2 = preprocess_image top_image,
          observation_image = preprocess_image wrist_image,
          observation_image3 = preprocess_image side_image,
          task = ''Pick up the red cube.''\<rparr>"
  using assms unfolding make_batch_def
  by (auto split: sum.splits)

text \<open>
  The policy input, when it can be built: under the state key the output of
  \<^verbatim>\<open>convert_7_to_6\<close> on the tool pose with a batch dimension added, not rescaled
  by the script; the task string; and for the top, wrist and side camera the
  preprocessed \<^verbatim>\<open>rgb\<close> tensor. Preprocessing maps element values in [0,255] to
  values in [0,1], and it puts the channels first.
\<close>

lemma policy_input_contract:
  assumes "make_batch X obs = Inr b"
  shows "\<exists>raw_pose top_image side_image wrist_image.
           lookup_key ''tcp_pose'' (extra obs) = Inr raw_pose
         \<and> camera_rgb obs ''top_camera'' = Inr top_image
         \<and> camera_rgb obs ''side_camera'' = Inr side_image
         \<and> camera_rgb obs ''wrist_camera'' = Inr wrist_image
         \<and> observation_state b = [convert_7_to_6 X raw_pose]
         \<and> task b = ''Pick up the red cube.''
         \<and> observation_image2 b = preprocess_image top_image
         \<and> observation_image b = preprocess_image wrist_image
         \<and> observation_image3 b = preprocess_image side_image
         \<and> (\<forall>img \<in> {top_image, wrist_image, side_image}.
               (all_elements (\<lambda>v. 0 \<le> v \<and> v \<le> 255) img
                  \<longrightarrow> all_elements (\<lambda>v. 0 \<le> v \<and> v \<le> 1) (preprocess_image img))
             \<and> (\<forall>n h w c. has_shape img n h w c \<and> 0 < h \<and> 0 < w \<longrightarrow>
                   preprocess_image img =
                     map (\<lambda>x. map (\<lambda>k. map (map (\<lambda>px. px ! k / 255)) x) [0..<c]) img))"
proof -
  from assms obtain raw_pose top_image side_image wrist_image where
    1: "lookup_key ''tcp_pose'' (extra obs) = Inr raw_pose"
    and 2: "camera_rgb obs ''top_camera'' = Inr top_image"
    and 3: "camera_rgb obs ''side_camera'' = Inr side_image"
    and 4: "camera_rgb obs ''wrist_camera'' = Inr wrist_image"
    and b: "b = \<lparr>observation_state = [convert_7_to_6 X raw_pose],
          observation_image2 = preprocess_image top_image,
          observation_image = preprocess_image wrist_image,
          observation_image3 = preprocess_image side_image,
          task = ''Pick up the red cube.''\<rparr>"
    by (rule make_batch_InrE)
  have 5: "observation_state b = [convert_7_to_6 X raw_pose]" using b by simp
  have 6: "task b = ''Pick up the red cube.''" using b by simp
  have 7: "observation_image2 b = preprocess_image top_image" using b by simp
  have 8: "observation_image b = preprocess_image wrist_image" using b by simp
  have 9: "observation_image3 b = preprocess_image side_image" using b by simp
  have 10: "all_elements (\<lambda>v. 0 \<le> v \<and> v \<le> 255) img
                  \<longrightarrow> all_elements (\<lambda>v. 0 \<le> v \<and> v \<le> 1) (preprocess_image img)" for img
    using preprocess_image_range[of img] by (rule impI)
  have 11: "\<forall>n h w c. has_shape img n h w c \<and> 0 < h \<and> 0 < w \<longrightarrow>
                   preprocess_image img =
                     map (\<lambda>x. map (\<lambda>k. map (map (\<lambda>px. px ! k / 255)) x) [0..<c]) img" for img
    using preprocess_image_layout[of img] by (intro allI impI) (elim conjE)
  have body: "lookup_key ''tcp_pose'' (extra obs) = Inr raw_pose
         \<and> camera_rgb obs ''top_camera'' = Inr top_image
         \<and> camera_rgb obs ''side_camera'' = Inr side_image
         \<and> camera_rgb obs ''wrist_camera'' = Inr wrist_image
         \<and> observation_state b = [convert_7_to_6 X raw_pose]
         \<and> task b = ''Pick up the red cube.''
         \<and> observation_image2 b = preprocess_image top_image
         \<and> observation_image b = preprocess_image wrist_image
         \<and> observation_image3 b = preprocess_image side_image
         \<and> (\<forall>img \<in> {top_image, wrist_image, side_image}.
               (all_elements (\<lambda>v. 0 \<le> v \<and> v \<le> 255) img
                  \<longrightarrow> all_elements (\<lambda>v. 0 \<le> v \<and> v \<le> 1) (preprocess_image img))
             \<and> (\<forall>n h w c. has_shape img n h w c \<and> 0 < h \<and> 0 < w \<longrightarrow>
                   preprocess_image img =
                     map (\<lambda>x. map (\<lambda>k. map (map (\<lambda>px. px ! k / 255)) x) [0..<c]) img))"
    by (intro conjI ballI) (rule 1 2 3 4 5 6 7 8 9 10 11)+
  show ?thesis
    apply (rule exI[of _ raw_pose])
    apply (rule exI[of _ top_image])
    apply (rule exI[of _ side_image])
    apply (rule exI[of _ wrist_image])
    apply (rule body)
    done
qed

subsection \<open>The call of the environment step\<close>

text \<open>
  C1. In an iteration that reaches \<^verbatim>\<open>env.step\<close> (the policy input \<open>b\<close> could be
  built), whether it then completes or aborts while appending frames,
  \<^verbatim>\<open>env.step\<close> is called once, with \<^verbatim>\<open>convert_6_to_7\<close> applied to the scaled output
  \<open>a6\<close> of \<^verbatim>\<open>policy.select_action\<close>: the environment, the observation, the reward
  and the flags that the script holds afterwards are the ones this call returns,
  and this action is the one recorded for the step. On a 6-dimensional row the
  scaling multiplies the components 0 to 2 by 0.05 and the components 3 to 5 by
  0.2.
\<close>

theorem action_sent_to_env:
  assumes "make_batch X (raw_observation s) = Inr b"
    and "select_action X (policy s) b = (a6, p')"
  shows "(\<exists>reward t trunc.
            env_step X (env s) (convert_6_to_7 X (scale_action a6))
              = (env (final_state (loop_body X s)),
                 raw_observation (final_state (loop_body X s)), reward, t, trunc)
          \<and> rewards (final_state (loop_body X s)) = rewards s @ [reward]
          \<and> terminated (final_state (loop_body X s)) = Some t
          \<and> policy (final_state (loop_body X s)) = p'
          \<and> take (Suc (length (trace s))) (trace (final_state (loop_body X s)))
              = trace s @ [Stepped (convert_6_to_7 X (scale_action a6)) reward t trunc]
          \<and> (\<forall>s'. loop_body X s = Inr s' \<longrightarrow>
                done_flag s' = (t \<or> trunc \<or> done_flag s) \<and> step s' = Suc (step s)))
         \<and> sent_actions (trace (final_state (loop_body X s)))
           = sent_actions (trace s) @ [convert_6_to_7 X (scale_action a6)]
         \<and> scale_action [[a0, a1, a2, a3, a4, a5]]
           = [[a0 * 0.05, a1 * 0.05, a2 * 0.05, a3 * 0.2, a4 * 0.2, a5 * 0.2]]"
proof -
  let ?act = "convert_6_to_7 X (scale_action a6)"
  obtain e' obs' reward t trunc where
    es: "env_step X (env s) ?act = (e', obs', reward, t, trunc)"
    by (cases "env_step X (env s) ?act")
  let ?f = "final_state (loop_body X s)"
  have fin: "env ?f = e' \<and> raw_observation ?f = obs' \<and> rewards ?f = rewards s @ [reward]
      \<and> terminated ?f = Some t \<and> policy ?f = p'
      \<and> (\<exists>fr. trace ?f = trace s @ Stepped ?act reward t trunc # frame_events fr)
      \<and> (\<forall>s'. loop_body X s = Inr s' \<longrightarrow>
                done_flag s' = (t \<or> trunc \<or> done_flag s) \<and> step s' = Suc (step s))"
  proof (cases "loop_body X s")
    case (Inr s')
    then show ?thesis
    proof (rule loop_body_InrE)
      fix b1 a1 p1 e1 obs1 r1 t1 u1
      assume "make_batch X (raw_observation s) = Inr b1"
        "select_action X (policy s) b1 = (a1, p1)"
        "env_step X (env s) (convert_6_to_7 X (scale_action a1)) = (e1, obs1, r1, t1, u1)"
        and s': "s' = s\<lparr>env := e1, policy := p1, raw_observation := obs1,
            rewards := rewards s @ [r1], terminated := Some t1,
            trace := trace s @ Stepped (convert_6_to_7 X (scale_action a1)) r1 t1 u1
                       # frame_events (sensor_data obs1),
            done_flag := (t1 \<or> u1 \<or> done_flag s), step := Suc (step s)\<rparr>"
      with assms es have eq: "a1 = a6" "p1 = p'" "e1 = e'" "obs1 = obs'" "r1 = reward"
        "t1 = t" "u1 = trunc" by simp_all
      have "\<exists>fr. trace s' = trace s @ Stepped ?act reward t trunc # frame_events fr"
        using s' eq by (intro exI[of _ "sensor_data obs'"]) simp
      with s' eq Inr show ?thesis
        by (simp add: final_state_def)
    qed
  next
    case (Inl a)
    obtain err s' where a: "a = (err, s')" by (cases a)
    from Inl a have body: "loop_body X s = Inl (err, s')" by simp
    then show ?thesis
    proof (cases rule: loop_body_InlE)
      case no_batch
      with assms show ?thesis by simp
    next
      case (no_frame b1 a1 p1 e1 obs1 r1 t1 u1 k)
      with assms es have eq: "a1 = a6" "p1 = p'" "e1 = e'" "obs1 = obs'" "r1 = reward"
        "t1 = t" "u1 = trunc" by simp_all
      have "\<exists>fr. trace s' = trace s @ Stepped ?act reward t trunc # frame_events fr"
        using no_frame(7) eq by (intro exI[of _ "take k (sensor_data obs')"]) simp
      with no_frame(7) eq body show ?thesis
        by (simp add: final_state_def)
    qed
  qed
  then obtain fr where tr: "trace ?f = trace s @ Stepped ?act reward t trunc # frame_events fr"
    by (elim conjE exE)
  have 1: "env_step X (env s) ?act = (env ?f, raw_observation ?f, reward, t, trunc)"
    using es fin by simp
  have 5: "take (Suc (length (trace s))) (trace ?f) = trace s @ [Stepped ?act reward t trunc]"
    unfolding tr by simp
  have 6: "sent_actions (trace ?f) = sent_actions (trace s) @ [?act]"
    unfolding tr by (rule sent_actions_step)
  have 7: "scale_action [[a0, a1, a2, a3, a4, a5]]
           = [[a0 * 0.05, a1 * 0.05, a2 * 0.05, a3 * 0.2, a4 * 0.2, a5 * 0.2]]"
    by (simp add: scale_action_def scale_row_6)
  have ex: "\<exists>reward t trunc.
            env_step X (env s) ?act = (env ?f, raw_observation ?f, reward, t, trunc)
          \<and> rewards ?f = rewards s @ [reward]
          \<and> terminated ?f = Some t
          \<and> policy ?f = p'
          \<and> take (Suc (length (trace s))) (trace ?f) = trace s @ [Stepped ?act reward t trunc]
          \<and> (\<forall>s'. loop_body X s = Inr s' \<longrightarrow>
                done_flag s' = (t \<or> trunc \<or> done_flag s) \<and> step s' = Suc (step s))"
    using 1 5 fin by (intro exI[of _ reward] exI[of _ t] exI[of _ trunc]) simp
  from ex 6 7 show ?thesis by (intro conjI)
qed

theorem action_sent_to_env_witness:
  "\<exists>b. make_batch demo_externals (raw_observation (init_state demo_externals)) = Inr b
     \<and> select_action demo_externals (policy (init_state demo_externals)) b
         = ([[1, 1, 1, 1, 1, 1]], ())
     \<and> env (final_state (loop_body demo_externals (init_state demo_externals))) = 1
     \<and> sent_actions (trace (final_state (loop_body demo_externals (init_state demo_externals))))
         = [[[1 / 20, 1 / 20, 1 / 20, 1 / 5, 1 / 5, 1 / 5, 0]]]"
proof -
  let ?s = "init_state demo_externals"
  let ?f = "final_state (loop_body demo_externals ?s)"
  obtain b where b: "make_batch demo_externals (raw_observation ?s) = Inr b"
    by (simp add: demo_init demo_batch)
  have sa: "select_action demo_externals (policy ?s) b = ([[1, 1, 1, 1, 1, 1]], ())"
    by (simp add: demo_externals_def)
  note inst = action_sent_to_env[OF b sa, of 1 1 1 1 1 1]
  have es0: "env_step demo_externals (env ?s) a = (1, demo_obs, 1, False, False)" for a
    by (simp add: demo_init) (simp add: demo_externals_def)
  from inst obtain reward t trunc where
    "env_step demo_externals (env ?s) (convert_6_to_7 demo_externals (scale_action [[1, 1, 1, 1, 1, 1]]))
       = (env ?f, raw_observation ?f, reward, t, trunc)"
    by (elim conjE exE)
  then have 1: "env ?f = 1"
    by (simp only: es0 prod.inject)
  from inst have "sent_actions (trace ?f)
      = sent_actions (trace ?s) @ [convert_6_to_7 demo_externals (scale_action [[1, 1, 1, 1, 1, 1]])]"
    by (elim conjE)
  then have 2: "sent_actions (trace ?f) = [[[1 / 20, 1 / 20, 1 / 20, 1 / 5, 1 / 5, 1 / 5, 0]]]"
    by (simp add: demo_init sent_actions_def scale_action_def scale_row_6)
       (simp add: demo_externals_def)
  show ?thesis
    by (intro exI[of _ b] conjI) (rule b sa 1 2)+
qed

subsection \<open>The run, iteration by iteration\<close>

lemma rollout_relation:
  assumes run: "rollout X s = Some (Inr sf)"
    and base: "\<And>s. done_flag s \<Longrightarrow> R s s"
    and step: "\<And>s s' sf. \<not> done_flag s \<Longrightarrow> loop_body X s = Inr s' \<Longrightarrow> R s' sf \<Longrightarrow> R s sf"
  shows "R s sf"
proof -
  have "X' = X \<longrightarrow> (\<forall>sf. r = Inr sf \<longrightarrow> R s sf)" if "rollout X' s = Some r" for X' r
    using that
  proof (induction rule: rollout.raw_induct[rotated 1, consumes 1])
    case (1 rollout' Y s r)
    show ?case
    proof (intro impI allI)
      fix sf assume Y: "Y = X" and r: "r = Inr sf"
      show "R s sf"
      proof (cases "done_flag s")
        case True
        with 1(2) r have "sf = s" by simp
        with True base show ?thesis by simp
      next
        case False
        show ?thesis
        proof (cases "loop_body X s")
          case (Inl err)
          with False 1(2) Y r show ?thesis by simp
        next
          case (Inr s')
          with False 1(2) Y have "rollout' X s' = Some r" by simp
          from 1(1)[OF this] r have "R s' sf" by simp
          with False Inr show ?thesis by (rule step)
        qed
      qed
    qed
  qed
  with run show ?thesis by blast
qed

text \<open>
  A normal end of the loop after \<open>step sf - step s\<close> iterations: each has
  completed, and the trace has grown by one step event and the frames of the
  returned observation per iteration.
\<close>

lemma rollout_blocks:
  assumes "rollout X s = Some (Inr sf)"
  shows "step s \<le> step sf
       \<and> length (run_states (step sf - step s) X s) = step sf - step s
       \<and> (\<exists>evs. length evs = step sf - step s \<and> list_all is_step evs
             \<and> trace sf = trace s @ concat (blocks_of evs (run_states (step sf - step s) X s)))"
  using assms
proof (rule rollout_relation)
  fix s :: "('a, 'b) state"
  show "step s \<le> step s
       \<and> length (run_states (step s - step s) X s) = step s - step s
       \<and> (\<exists>evs. length evs = step s - step s \<and> list_all is_step evs
             \<and> trace s = trace s @ concat (blocks_of evs (run_states (step s - step s) X s)))"
    by (simp add: blocks_of_def)
next
  fix s s' sf :: "('a, 'b) state"
  assume nd: "\<not> done_flag s" and body: "loop_body X s = Inr s'"
    and IH: "step s' \<le> step sf
       \<and> length (run_states (step sf - step s') X s') = step sf - step s'
       \<and> (\<exists>evs. length evs = step sf - step s' \<and> list_all is_step evs
             \<and> trace sf = trace s' @ concat (blocks_of evs (run_states (step sf - step s') X s')))"
  from body obtain b a6 p' e' obs' reward t trunc where
    s': "s' = s\<lparr>env := e', policy := p', raw_observation := obs',
            rewards := rewards s @ [reward], terminated := Some t,
            trace := trace s @ Stepped (convert_6_to_7 X (scale_action a6)) reward t trunc
                       # frame_events (sensor_data obs'),
            done_flag := (t \<or> trunc \<or> done_flag s), step := Suc (step s)\<rparr>"
    by (rule loop_body_InrE)
  let ?ev = "Stepped (convert_6_to_7 X (scale_action a6)) reward t trunc"
  from s' have st: "step s' = Suc (step s)" and obs: "raw_observation s' = obs'"
    and tr: "trace s' = trace s @ ?ev # frame_events (sensor_data obs')" by simp_all
  from IH obtain evs where le: "step s' \<le> step sf"
    and len: "length (run_states (step sf - step s') X s') = step sf - step s'"
    and evs: "length evs = step sf - step s'" "list_all is_step evs"
    and trf: "trace sf = trace s' @ concat (blocks_of evs (run_states (step sf - step s') X s'))"
    by (elim conjE exE)
  from le st have k: "step sf - step s = Suc (step sf - step s')" by simp
  have rs: "run_states (step sf - step s) X s = s' # run_states (step sf - step s') X s'"
    unfolding k using nd body by simp
  have 1: "step s \<le> step sf" using le st by simp
  have 2: "length (run_states (step sf - step s) X s) = step sf - step s"
    unfolding rs using len k by simp
  have 3: "length (?ev # evs) = step sf - step s" using evs(1) k by simp
  have 4: "list_all is_step (?ev # evs)" using evs(2) by simp
  have 5: "trace sf = trace s @ concat (blocks_of (?ev # evs) (run_states (step sf - step s) X s))"
    unfolding rs trf tr by (simp add: blocks_of_def obs)
  from 3 4 5 have "\<exists>evs. length evs = step sf - step s \<and> list_all is_step evs
             \<and> trace sf = trace s @ concat (blocks_of evs (run_states (step sf - step s) X s))"
    by (intro exI[of _ "?ev # evs"] conjI)
  with 1 2 show "step s \<le> step sf
       \<and> length (run_states (step sf - step s) X s) = step sf - step s
       \<and> (\<exists>evs. length evs = step sf - step s \<and> list_all is_step evs
             \<and> trace sf = trace s @ concat (blocks_of evs (run_states (step sf - step s) X s)))"
    by (intro conjI)
qed

subsection \<open>Steps of the trace\<close>

lemma step_blocks_no_steps:
  "list_all (\<lambda>e. \<not> is_step e) xs \<Longrightarrow> step_blocks (xs @ ys) = step_blocks ys"
  by (induction xs) simp_all

lemma takeWhile_no_steps:
  "list_all (\<lambda>e. \<not> is_step e) xs
   \<Longrightarrow> takeWhile (\<lambda>e. \<not> is_step e) (xs @ ys) = xs @ takeWhile (\<lambda>e. \<not> is_step e) ys"
  by (induction xs) simp_all

lemma step_blocks_concat:
  assumes "\<And>b. b \<in> set bs \<Longrightarrow> \<exists>ev fr. b = ev # fr \<and> is_step ev \<and> list_all (\<lambda>e. \<not> is_step e) fr"
    and "list_all (\<lambda>e. \<not> is_step e) tail"
  shows "length (step_blocks (concat bs @ tail)) = length bs
       \<and> (\<forall>blk \<in> set (step_blocks (concat bs @ tail)). blk \<in> set bs \<or> (\<exists>b \<in> set bs. blk = b @ tail))"
  using assms(1)
proof (induction bs)
  case Nil
  from step_blocks_no_steps[OF assms(2), of "[]"] show ?case by simp
next
  case (Cons b bs)
  from Cons.prems[of b] obtain ev fr where b: "b = ev # fr" and ev: "is_step ev"
    and fr: "list_all (\<lambda>e. \<not> is_step e) fr" by auto
  have IH: "length (step_blocks (concat bs @ tail)) = length bs
       \<and> (\<forall>blk \<in> set (step_blocks (concat bs @ tail)). blk \<in> set bs \<or> (\<exists>b \<in> set bs. blk = b @ tail))"
    using Cons.prems by (intro Cons.IH) simp
  let ?rest = "concat bs @ tail"
  have sb: "step_blocks (concat (b # bs) @ tail)
              = (ev # fr @ takeWhile (\<lambda>e. \<not> is_step e) ?rest) # step_blocks ?rest"
    using ev by (simp add: b takeWhile_no_steps[OF fr] step_blocks_no_steps[OF fr])
  have first: "ev # fr @ takeWhile (\<lambda>e. \<not> is_step e) ?rest = b
             \<or> ev # fr @ takeWhile (\<lambda>e. \<not> is_step e) ?rest = b @ tail"
  proof (cases bs)
    case Nil
    with assms(2) have "takeWhile (\<lambda>e. \<not> is_step e) ?rest = tail"
      by (simp add: list_all_iff)
    with b show ?thesis by simp
  next
    case (Cons b' bs')
    with Cons.prems[of b'] obtain ev' fr' where "b' = ev' # fr'" "is_step ev'" by auto
    with Cons have "takeWhile (\<lambda>e. \<not> is_step e) ?rest = []" by simp
    with b show ?thesis by simp
  qed
  show ?case
    unfolding sb using IH first by auto
qed

lemma concat_count:
  "(\<And>b. b \<in> set bs \<Longrightarrow> length (filter P b) = 1) \<Longrightarrow> length (filter P (concat bs)) = length bs"
  by (induction bs) simp_all

lemma blocks_of_elem:
  "b \<in> set (blocks_of evs sts)
   \<Longrightarrow> \<exists>ev s'. ev \<in> set evs \<and> s' \<in> set sts
         \<and> b = ev # frame_events (sensor_data (raw_observation s'))"
  by (auto simp: blocks_of_def dest: set_zip_leftD set_zip_rightD)

lemma length_blocks_of: "length (blocks_of evs sts) = min (length evs) (length sts)"
  by (simp add: blocks_of_def)

lemma no_steps_frame_events: "list_all (\<lambda>e. \<not> is_step e) (frame_events items)"
  by (induction items) (auto simp: frame_events_def)

lemma frames_written_step_event:
  "is_step ev \<Longrightarrow> frames_written uid (ev # xs) = frames_written uid xs"
  by (cases ev) (simp_all add: frames_written_def)

lemma env_steps_step_event:
  "is_step ev \<Longrightarrow> env_steps (ev # frame_events items) = [ev]"
  using env_steps_frame_events[of items] by (simp add: env_steps_def)

subsection \<open>One video per camera, one frame per step\<close>

text \<open>
  C4, as amended. Let the script end normally, let the initial observation list
  each camera once, and let every observation that \<^verbatim>\<open>env.step\<close> returned in the run
  list exactly the initial cameras, each once. Then all \<open>step\<close> iterations of the
  run are covered by this condition; one writer is opened per initial camera, in
  order, for the path that line 96 computes, which is \<^verbatim>\<open>videos/<camera_id>.mp4\<close>,
  different for different cameras, when no identifier contains a slash; the trace
  has one block per executed step, and in each block there is one call of
  \<^verbatim>\<open>env.step\<close> and exactly one frame for the writer of every initial camera; so
  every video has as many frames as there were calls of \<^verbatim>\<open>env.step\<close>.
\<close>

theorem one_video_and_one_frame_per_step:
  assumes run: "agent_eval X = Some (Inr s)"
    and dist: "distinct (camera_uids X)"
    and same: "list_all (\<lambda>s'. same_cameras (camera_uids X) (raw_observation s'))
                 (run_states (step s) X (init_state X))"
  shows "length (run_states (step s) X (init_state X)) = step s
       \<and> opened_files (trace s) = map (\<lambda>uid. (uid, video_path uid)) (camera_uids X)
       \<and> ((\<forall>uid \<in> set (camera_uids X). CHR ''/'' \<notin> set uid) \<longrightarrow>
            opened_files (trace s)
              = map (\<lambda>uid. (uid, ''videos/'' @ uid @ ''.mp4'')) (camera_uids X)
            \<and> distinct (map snd (opened_files (trace s))))
       \<and> length (step_blocks (trace s)) = step s
       \<and> (\<forall>blk \<in> set (step_blocks (trace s)).
             length (env_steps blk) = 1
             \<and> (\<forall>uid \<in> set (camera_uids X). length (frames_written uid blk) = 1))
       \<and> length (env_steps (trace s)) = step s
       \<and> (\<forall>uid \<in> set (camera_uids X).
             length (frames_written uid (trace s)) = length (env_steps (trace s)))"
proof -
  let ?cams = "camera_uids X"
  from run obtain s0 t where loop: "rollout X (init_state X) = Some (Inr s0)"
    and s: "s = s0\<lparr>trace := trace s0 @ Printed (if t then ''Success!'' else ''Failure!'')
                          # map Closed (map fst (writers s0))\<rparr>"
    by (rule agent_eval_InrE)
  let ?tail = "Printed (if t then ''Success!'' else ''Failure!'') # map Closed (map fst (writers s0))"
  have st: "step s = step s0" using s by simp
  have trs: "trace s = trace s0 @ ?tail" using s by (simp split del: if_split)
  let ?sts = "run_states (step s) X (init_state X)"
  from rollout_blocks[OF loop] obtain evs where
    len: "length ?sts = step s"
    and evs: "length evs = step s" "list_all is_step evs"
    and tr0: "trace s0 = open_events X @ concat (blocks_of evs ?sts)"
    by (auto simp: init_state_fields init_state_trace st)
  let ?bs = "blocks_of evs ?sts"
  have tr: "trace s = open_events X @ concat ?bs @ ?tail"
    unfolding trs tr0 by (simp split del: if_split)
  have nbs: "length ?bs = step s"
    using len evs(1) by (simp add: length_blocks_of)
  have tail_steps: "list_all (\<lambda>e. \<not> is_step e) ?tail"
    by (simp add: list_all_iff)
  have open_steps: "list_all (\<lambda>e. \<not> is_step e) (open_events X)"
    by (simp add: open_events_def list_all_iff)
  have block: "\<exists>ev items. b = ev # frame_events items \<and> is_step ev
                 \<and> distinct (map fst items) \<and> fst ` set items = set ?cams"
    if "b \<in> set ?bs" for b
  proof -
    from blocks_of_elem[OF that] obtain ev s' where ev: "ev \<in> set evs" and s': "s' \<in> set ?sts"
      and b: "b = ev # frame_events (sensor_data (raw_observation s'))" by (elim exE conjE)
    from ev evs(2) have "is_step ev" by (simp add: list_all_iff)
    moreover from s' same have "same_cameras ?cams (raw_observation s')"
      by (simp add: list_all_iff)
    ultimately show ?thesis using b
      by (intro exI[of _ ev] exI[of _ "sensor_data (raw_observation s')"])
         (simp add: same_cameras_def)
  qed
  have shape: "\<exists>ev fr. b = ev # fr \<and> is_step ev \<and> list_all (\<lambda>e. \<not> is_step e) fr"
    if "b \<in> set ?bs" for b
    using block[OF that] no_steps_frame_events by blast
  have good: "length (env_steps b) = 1 \<and> length (frames_written uid b) = 1"
    if "b \<in> set ?bs" "uid \<in> set ?cams" for b uid
  proof -
    from block[OF that(1)] obtain ev items where b: "b = ev # frame_events items"
      and ev: "is_step ev" and d: "distinct (map fst items)"
      and k: "fst ` set items = set ?cams" by (elim exE conjE)
    from that(2) k have "uid \<in> fst ` set items" by simp
    with d have "length (frames_written uid (frame_events items)) = 1"
      by (rule frames_written_frame_events)
    then show ?thesis
      by (simp add: b env_steps_step_event[OF ev] frames_written_step_event[OF ev])
  qed
  have steps1: "length (env_steps b) = 1" if "b \<in> set ?bs" for b
  proof -
    from block[OF that] obtain ev items where "b = ev # frame_events items" "is_step ev"
      by (elim exE conjE)
    then show ?thesis by (simp add: env_steps_step_event)
  qed
  have tail_quiet: "env_steps (b @ ?tail) = env_steps b"
    "frames_written uid (b @ ?tail) = frames_written uid b" for b uid
    by (simp_all only: env_steps_append env_steps_closed frames_written_append
        frames_written_closed append_Nil2)
  have sb: "step_blocks (trace s) = step_blocks (concat ?bs @ ?tail)"
    unfolding tr by (rule step_blocks_no_steps[OF open_steps])
  from step_blocks_concat[of ?bs ?tail, OF shape tail_steps]
  have nblocks: "length (step_blocks (concat ?bs @ ?tail)) = length ?bs"
    and blocks: "\<forall>blk \<in> set (step_blocks (concat ?bs @ ?tail)).
                   blk \<in> set ?bs \<or> (\<exists>b \<in> set ?bs. blk = b @ ?tail)"
    by simp_all
  have 1: "length ?sts = step s" by (rule len)
  have 2: "opened_files (trace s) = map (\<lambda>uid. (uid, video_path uid)) ?cams"
  proof -
    from rollout_normal(1)[OF loop] have tr0': "trace s0 = open_events X @ loop_trace X s0"
      and ev: "list_all (loop_event ?cams) (loop_trace X s0)"
      by (simp_all add: run_inv_def)
    have "trace s = open_events X @ loop_trace X s0 @ ?tail"
      unfolding trs tr0' by (simp split del: if_split)
    then show ?thesis
      by (simp only: opened_files_append opened_files_open_events opened_files_loop[OF ev]
          opened_files_closed append_Nil2)
  qed
  have 3: "opened_files (trace s) = map (\<lambda>uid. (uid, ''videos/'' @ uid @ ''.mp4'')) ?cams
            \<and> distinct (map snd (opened_files (trace s)))"
    if plain: "\<forall>uid \<in> set ?cams. CHR ''/'' \<notin> set uid"
  proof -
    have eq: "map (\<lambda>uid. (uid, video_path uid)) ?cams
                = map (\<lambda>uid. (uid, ''videos/'' @ uid @ ''.mp4'')) ?cams"
      using plain by (intro map_cong refl) (simp add: video_path_plain)
    have "distinct (map (\<lambda>uid. ''videos/'' @ uid @ ''.mp4'') ?cams)"
      using dist by (simp add: distinct_map inj_on_def)
    then show ?thesis
      unfolding 2 eq by (simp add: comp_def)
  qed
  have 4: "length (step_blocks (trace s)) = step s"
    unfolding sb using nblocks nbs by simp
  have 5: "length (env_steps blk) = 1
             \<and> (\<forall>uid \<in> set ?cams. length (frames_written uid blk) = 1)"
    if "blk \<in> set (step_blocks (trace s))" for blk
  proof -
    from that sb blocks have "blk \<in> set ?bs \<or> (\<exists>b \<in> set ?bs. blk = b @ ?tail)" by simp
    then show ?thesis
    proof
      assume "blk \<in> set ?bs"
      with good steps1 show ?thesis by blast
    next
      assume "\<exists>b \<in> set ?bs. blk = b @ ?tail"
      then obtain b where b: "b \<in> set ?bs" "blk = b @ ?tail" by blast
      have "length (env_steps blk) = 1"
        unfolding b(2) tail_quiet using steps1[OF b(1)] .
      moreover have "length (frames_written uid blk) = 1" if "uid \<in> set ?cams" for uid
        unfolding b(2) tail_quiet using good[OF b(1) that] by simp
      ultimately show ?thesis by blast
    qed
  qed
  have 6: "length (env_steps (trace s)) = step s"
  proof -
    have "env_steps (trace s) = env_steps (concat ?bs)"
      unfolding tr by (simp only: env_steps_append env_steps_open_events env_steps_closed
          append_Nil append_Nil2)
    moreover have "length (env_steps (concat ?bs)) = length ?bs"
      unfolding env_steps_def using steps1 by (intro concat_count) (simp add: env_steps_def)
    ultimately show ?thesis using nbs by simp
  qed
  have 7: "length (frames_written uid (trace s)) = length (env_steps (trace s))"
    if "uid \<in> set ?cams" for uid
  proof -
    have "frames_written uid (trace s) = frames_written uid (concat ?bs)"
      unfolding tr by (simp only: frames_written_append frames_written_open_events
          frames_written_closed append_Nil append_Nil2)
    moreover have "length (frames_written uid (concat ?bs)) = length ?bs"
      unfolding frames_written_def using good[OF _ that]
      by (intro concat_count) (simp add: frames_written_def)
    ultimately show ?thesis using nbs 6 by simp
  qed
  show ?thesis
  proof (intro conjI ballI impI)
    show "length ?sts = step s" by (rule 1)
    show "opened_files (trace s) = map (\<lambda>uid. (uid, video_path uid)) ?cams" by (rule 2)
    show "length (step_blocks (trace s)) = step s" by (rule 4)
    show "length (env_steps (trace s)) = step s" by (rule 6)
  next
    assume p: "\<forall>uid \<in> set ?cams. CHR ''/'' \<notin> set uid"
    from 3[OF p] show "opened_files (trace s)
        = map (\<lambda>uid. (uid, ''videos/'' @ uid @ ''.mp4'')) ?cams" by (rule conjunct1)
    from 3[OF p] show "distinct (map snd (opened_files (trace s)))" by (rule conjunct2)
  next
    fix blk assume b: "blk \<in> set (step_blocks (trace s))"
    from 5[OF b] show "length (env_steps blk) = 1" by (rule conjunct1)
    fix uid assume "uid \<in> set ?cams"
    with 5[OF b] show "length (frames_written uid blk) = 1" by blast
  next
    fix uid assume "uid \<in> set ?cams"
    then show "length (frames_written uid (trace s)) = length (env_steps (trace s))" by (rule 7)
  qed
qed

text \<open>An identifier with a slash: the file is not \<^verbatim>\<open>videos/<uid>.mp4\<close>, it may lie
  outside the directory, and two identifiers may share a file.\<close>

lemma video_path_not_plain:
  "video_path ''/abs'' = ''/abs.mp4''"
  "video_path ''./top'' = ''videos/top.mp4''"
  "video_path ''a//b'' = ''videos/a/b.mp4''"
  by (simp_all add: video_path_def posix_join_def posix_str_def posix_root_def posix_parts_def)

lemma late_drop_init: "init_state late_drop = init_state demo_externals"
  by (simp add: init_state_eq late_drop_def demo_externals_def fps_def camera_uids_def)

lemma late_drop_cameras:
  "camera_uids late_drop = [''top_camera'', ''side_camera'', ''wrist_camera'']"
  by (simp add: camera_uids_def late_drop_def demo_externals_def demo_obs_def)

lemma late_drop_run: "\<exists>s. agent_eval late_drop = Some (Inr s) \<and> step s = 2"
  apply (simp add: agent_eval_def late_drop_init demo_init)
  apply (subst rollout.simps)
  apply (simp add: late_drop_def demo_defs)
  apply (subst rollout.simps)
  apply (simp add: late_drop_def demo_defs)
  apply (subst rollout.simps)
  apply (simp add: late_drop_def demo_defs)
  done

lemma late_drop_states:
  "list_all (\<lambda>s'. same_cameras (camera_uids late_drop) (raw_observation s'))
     (run_states 2 late_drop (init_state late_drop))"
  unfolding late_drop_cameras late_drop_init demo_init numeral_2_eq_2
  by (simp add: late_drop_def demo_defs same_cameras_def)

theorem one_video_and_one_frame_per_step_witness:
  "\<exists>s. agent_eval late_drop = Some (Inr s)
       \<and> distinct (camera_uids late_drop)
       \<and> list_all (\<lambda>s'. same_cameras (camera_uids late_drop) (raw_observation s'))
           (run_states (step s) late_drop (init_state late_drop))
       \<and> step s = 2
       \<and> length (run_states (step s) late_drop (init_state late_drop)) = 2
       \<and> opened_files (trace s) = [(''top_camera'', ''videos/top_camera.mp4''),
                                    (''side_camera'', ''videos/side_camera.mp4''),
                                    (''wrist_camera'', ''videos/wrist_camera.mp4'')]
       \<and> length (step_blocks (trace s)) = 2
       \<and> list_all (\<lambda>blk. length (env_steps blk) = 1
                           \<and> length (frames_written ''side_camera'' blk) = 1)
           (step_blocks (trace s))
       \<and> length (env_steps (trace s)) = 2
       \<and> length (frames_written ''side_camera'' (trace s)) = 2"
proof -
  obtain s where s: "agent_eval late_drop = Some (Inr s)" and n: "step s = 2"
    using late_drop_run by blast
  have d: "distinct (camera_uids late_drop)"
    by (simp add: late_drop_cameras)
  have same: "list_all (\<lambda>s'. same_cameras (camera_uids late_drop) (raw_observation s'))
                (run_states (step s) late_drop (init_state late_drop))"
    unfolding n by (rule late_drop_states)
  have side: "''side_camera'' \<in> set (camera_uids late_drop)"
    by (simp add: late_drop_cameras)
  note inst = one_video_and_one_frame_per_step[OF s d same]
  from inst have 1: "length (run_states (step s) late_drop (init_state late_drop)) = 2"
    unfolding n by (rule conjunct1)
  from inst have "opened_files (trace s) = map (\<lambda>uid. (uid, video_path uid)) (camera_uids late_drop)"
    by (elim conjE)
  then have 2: "opened_files (trace s) = [(''top_camera'', ''videos/top_camera.mp4''),
                                    (''side_camera'', ''videos/side_camera.mp4''),
                                    (''wrist_camera'', ''videos/wrist_camera.mp4'')]"
    by (simp add: late_drop_cameras demo_paths)
  from inst have "length (step_blocks (trace s)) = step s" by (elim conjE)
  then have 3: "length (step_blocks (trace s)) = 2" unfolding n .
  from inst have blocks: "\<forall>blk \<in> set (step_blocks (trace s)).
             length (env_steps blk) = 1
             \<and> (\<forall>uid \<in> set (camera_uids late_drop). length (frames_written uid blk) = 1)"
    by (elim conjE)
  have 4: "list_all (\<lambda>blk. length (env_steps blk) = 1
                           \<and> length (frames_written ''side_camera'' blk) = 1)
           (step_blocks (trace s))"
    unfolding list_all_iff
  proof (intro ballI conjI)
    fix blk assume b: "blk \<in> set (step_blocks (trace s))"
    from blocks b have k: "length (env_steps blk) = 1
             \<and> (\<forall>uid \<in> set (camera_uids late_drop). length (frames_written uid blk) = 1)"
      by (rule bspec)
    from k show "length (env_steps blk) = 1" by (rule conjunct1)
    from k have "\<forall>uid \<in> set (camera_uids late_drop). length (frames_written uid blk) = 1"
      by (rule conjunct2)
    then show "length (frames_written ''side_camera'' blk) = 1" using side by (rule bspec)
  qed
  from inst have "length (env_steps (trace s)) = step s" by (elim conjE)
  then have 5: "length (env_steps (trace s)) = 2" unfolding n .
  from inst have "\<forall>uid \<in> set (camera_uids late_drop).
             length (frames_written uid (trace s)) = length (env_steps (trace s))"
    by (elim conjE)
  then have "length (frames_written ''side_camera'' (trace s)) = length (env_steps (trace s))"
    using side by (rule bspec)
  then have 6: "length (frames_written ''side_camera'' (trace s)) = 2" unfolding 5 .
  show ?thesis
    by (intro exI[of _ s] conjI) (rule s d same n 1 2 3 4 5 6)+
qed

end
